theory Spec2Isabelle
  imports Main "HOL-Library.Word" "HOL-Library.Signed_Division" "HOL-Library.Sublist"
begin

section \<open>mtdown: the multi-threaded downloader of \<^verbatim>\<open>src/mtdown.c\<close>\<close>

text \<open>
  The C types of the source and how they are read here:
  \<^item> \<^verbatim>\<open>int\<close> and \<^verbatim>\<open>curl_off_t\<close> (a signed 64-bit integer) are \<open>int\<close>; the theorems
    carry the range of the type as a hypothesis where it matters (\<open>res < 2 ^ 63\<close>). For
    a positive content length and a positive thread count the signed products of the
    planner stay within that range (they are at most the content length);
  \<^item> \<^verbatim>\<open>unsigned long long\<close> is \<open>64 word\<close>; the assignment of a \<^verbatim>\<open>curl_off_t\<close>
    expression to it is \<open>word_of_int\<close>, the conversion modulo \<open>2 ^ 64\<close>;
  \<^item> C strings are \<open>string\<close>.
\<close>

subsection \<open>Structs\<close>

text \<open>\<^verbatim>\<open>DLThreadArgs\<close>. The field \<^verbatim>\<open>end\<close> is named \<open>end'\<close>; \<^verbatim>\<open>url\<close> is the
  global \<^verbatim>\<open>settings.url\<close> and is carried by \<open>DLSettings\<close> only.\<close>

record DLThreadArgs =
  index :: int
  start :: "64 word"
  end' :: "64 word"

subsection \<open>Chunk planning (\<^verbatim>\<open>setup_download\<close>, lines 349 and 436 to 441)\<close>

text \<open>\<^verbatim>\<open>curl_off_t chunk_size = res / settings.max_threads;\<close> C division truncates
  towards zero (\<open>sdiv\<close>). The divisor zero is a trap in C and is a branch of
  \<open>setup_download\<close> below, before this function is used.\<close>

definition chunk_size :: "int \<Rightarrow> int \<Rightarrow> int" where
  "chunk_size res max_threads = res sdiv max_threads"

text \<open>The three assignments of one loop iteration and the overwrite for the last thread:
  \<^verbatim>\<open>
    thread_infos[i]->args->index = i;
    thread_infos[i]->args->start = i * chunk_size;
    thread_infos[i]->args->end = (i + 1) * chunk_size - 1;
    if (i == settings.max_threads - 1) thread_infos[i]->args->end = res;
  \<close>\<close>

definition thread_args :: "int \<Rightarrow> int \<Rightarrow> int \<Rightarrow> DLThreadArgs" where
  "thread_args res max_threads i =
     (let cs = chunk_size res max_threads;
          a = \<lparr>index = i, start = word_of_int (i * cs), end' = word_of_int ((i + 1) * cs - 1)\<rparr>
      in if i = max_threads - 1 then a\<lparr>end' := word_of_int res\<rparr> else a)"

text \<open>The plan is the sequence of arguments the loop
  \<^verbatim>\<open>for (int i = 0; i < settings.max_threads; i++)\<close> hands to the workers.\<close>

function plan_from :: "int \<Rightarrow> int \<Rightarrow> int \<Rightarrow> DLThreadArgs list" where
  "plan_from res max_threads i =
     (if i < max_threads then thread_args res max_threads i # plan_from res max_threads (i + 1)
      else [])"
  by pat_completeness auto
termination
  by (relation "measure (\<lambda>(res, max_threads, i). nat (max_threads - i))") auto

declare plan_from.simps [simp del]

definition plan :: "int \<Rightarrow> int \<Rightarrow> DLThreadArgs list" where
  "plan res max_threads = plan_from res max_threads 0"

text \<open>A byte offset is requested by a plan when some segment's inclusive range
  \<^verbatim>\<open>"%llu-%llu"\<close> contains it.\<close>

definition in_segment :: "DLThreadArgs \<Rightarrow> 64 word \<Rightarrow> bool" where
  "in_segment a b = (start a \<le> b \<and> b \<le> end' a)"

definition covered :: "DLThreadArgs list \<Rightarrow> 64 word \<Rightarrow> bool" where
  "covered p b = list_ex (\<lambda>a. in_segment a b) p"

subsection \<open>Colours and log lines\<close>

text \<open>The escape sequences \<^verbatim>\<open>RED\<close>, \<^verbatim>\<open>GREEN\<close>, \<^verbatim>\<open>YELLOW\<close>, \<^verbatim>\<open>GREY\<close> and
  \<^verbatim>\<open>RESET\<close>; \<^verbatim>\<open>\033\<close> is the byte \<open>0x1B\<close> and \<^verbatim>\<open>\n\<close> the byte \<open>0x0A\<close>.\<close>

definition RED :: string where "RED = CHR 0x1B # ''[31m''"
definition GREEN :: string where "GREEN = CHR 0x1B # ''[32m''"
definition YELLOW :: string where "YELLOW = CHR 0x1B # ''[33m''"
definition GREY :: string where "GREY = CHR 0x1B # ''[90m''"
definition RESET :: string where "RESET = CHR 0x1B # ''[0m''"
definition NL :: string where "NL = [CHR 0x0A]"

text \<open>\<^verbatim>\<open>%d\<close> of \<^verbatim>\<open>printf\<close>.\<close>

fun string_of_nat :: "nat \<Rightarrow> string" where
  "string_of_nat n =
     (if n < 10 then [char_of (48 + n)]
      else string_of_nat (n div 10) @ [char_of (48 + n mod 10)])"

declare string_of_nat.simps [simp del]

definition string_of_int :: "int \<Rightarrow> string" where
  "string_of_int i = (if i < 0 then CHR ''-'' # string_of_nat (nat (- i)) else string_of_nat (nat i))"

text \<open>\<^verbatim>\<open>snprintf(log, size, ...)\<close> with buffer size \<open>n\<close> keeps at most \<open>n - 1\<close> bytes of the formatted text.\<close>

definition snprintf :: "nat \<Rightarrow> string \<Rightarrow> string" where
  "snprintf n s = take (n - 1) s"

text \<open>The six lines the program appends to \<^verbatim>\<open>log_buffer\<close> with \<^verbatim>\<open>strcat\<close>, named after their
  format strings: the two of \<^verbatim>\<open>download_worker\<close> (into \<^verbatim>\<open>char log[310]\<close>), the one of
  \<^verbatim>\<open>setup_download\<close>, the two of \<^verbatim>\<open>pause_handler\<close> and the one of \<^verbatim>\<open>quit_handler\<close> (into
  \<^verbatim>\<open>char log[256]\<close>).\<close>

datatype log_line =
    Error_exiting int string
  | Error_retrying int string
  | Info_started int
  | Info_resumed
  | Info_paused
  | Error_cancelled

fun render :: "log_line \<Rightarrow> string" where
  "render (Error_exiting i errbuf) =
     snprintf 310 (RED @ ''ERROR | Thread '' @ string_of_int i @ '': '' @ errbuf @ '', exiting...'' @ NL @ RESET)"
| "render (Error_retrying i errbuf) =
     snprintf 310 (RED @ ''ERROR | Thread '' @ string_of_int i @ '': '' @ errbuf @ '', retrying...'' @ NL @ RESET)"
| "render (Info_started i) =
     snprintf 256 (GREY @ '' INFO | Thread '' @ string_of_int i @ '' started downloading.'' @ NL @ RESET)"
| "render Info_resumed = snprintf 256 (GREEN @ '' INFO | Download resumed.'' @ NL @ RESET)"
| "render Info_paused = snprintf 256 (YELLOW @ '' INFO | Download paused.'' @ NL @ RESET)"
| "render Error_cancelled =
     snprintf 256 (RED @ ''ERROR | Download cancelled by user, exiting...'' @ NL @ RESET)"

text \<open>\<^verbatim>\<open>log_buffer\<close> is kept as the sequence of lines appended so far; the C string in the
  buffer is their concatenation. The buffer's capacity (\<^verbatim>\<open>char log_buffer[2048]\<close>) is not
  modelled: \<^verbatim>\<open>strcat\<close> past it is undefined behaviour in C.\<close>

definition log_text :: "log_line list \<Rightarrow> string" where
  "log_text ls = concat (map render ls)"

text \<open>\<^verbatim>\<open>strstr(haystack, needle) != NULL\<close>.\<close>

fun strstr :: "string \<Rightarrow> string \<Rightarrow> bool" where
  "strstr [] needle = (needle = [])"
| "strstr (c # cs) needle = (prefix needle (c # cs) \<or> strstr cs needle)"

subsection \<open>The probe (\<^verbatim>\<open>find_max_threads\<close>)\<close>

text \<open>\<open>resp j\<close> is the response code that \<^verbatim>\<open>pthread_join(threads[j], &res)\<close> hands back at
  the current level. The inner loop
  \<^verbatim>\<open>for (int j = 0; j < i; j++) { ...; if ((int)res != 200) return i - 1; }\<close>
  is \<open>all_200\<close>: it is \<open>False\<close> as soon as one joined request is not 200.\<close>

function all_200 :: "(int \<Rightarrow> int) \<Rightarrow> int \<Rightarrow> int \<Rightarrow> bool" where
  "all_200 resp i j = (if j < i then (if resp j \<noteq> 200 then False else all_200 resp i (j + 1)) else True)"
  by pat_completeness auto
termination
  by (relation "measure (\<lambda>(resp, i, j). nat (i - j))") auto

declare all_200.simps [simp del]

text \<open>The outer loop \<^verbatim>\<open>for (int i = 1; i <= settings.max_threads; i++)\<close> with the local
  \<^verbatim>\<open>max_threads\<close> as the accumulator \<open>m\<close>; \<open>resp i j\<close> is the response of request \<open>j\<close> at
  level \<open>i\<close>. The terminal output of the probe is left out.\<close>

function probe_from :: "(int \<Rightarrow> int \<Rightarrow> int) \<Rightarrow> int \<Rightarrow> int \<Rightarrow> int \<Rightarrow> int" where
  "probe_from resp n i m =
     (if i \<le> n then (if all_200 (resp i) i 0 then probe_from resp n (i + 1) i else i - 1)
      else m)"
  by pat_completeness auto
termination
  by (relation "measure (\<lambda>(resp, n, i, m). nat (n + 1 - i))") auto

declare probe_from.simps [simp del]

definition find_max_threads :: "(int \<Rightarrow> int \<Rightarrow> int) \<Rightarrow> int \<Rightarrow> int" where
  "find_max_threads resp n = probe_from resp n 1 1"

subsection \<open>The segment worker (\<^verbatim>\<open>download_worker\<close>)\<close>

text \<open>What one call of \<^verbatim>\<open>curl_easy_perform\<close> did: its return code, the number of bytes it
  handed to \<^verbatim>\<open>write_callback\<close> (which \<^verbatim>\<open>fwrite\<close>s them at the position of the thread's
  \<^verbatim>\<open>FILE *\<close>), and the text it left in \<^verbatim>\<open>errbuf\<close>.\<close>

datatype CURLcode = CURLE_OK | CURLE_failed nat

record perform_result =
  code :: CURLcode
  written :: nat
  errbuf :: string

text \<open>The worker's own state: how often it called \<^verbatim>\<open>curl_easy_perform\<close>, the lines it
  appended to the log, the offsets it passed to \<^verbatim>\<open>fseek\<close>, and the position of its
  \<^verbatim>\<open>FILE *\<close> (the 64 bits of the offset).\<close>

record worker_state =
  attempts :: nat
  logged :: "log_line list"
  seeks :: "64 word list"
  position :: "64 word"

definition curl_easy_perform :: "perform_result \<Rightarrow> worker_state \<Rightarrow> worker_state" where
  "curl_easy_perform r s = s\<lparr>attempts := attempts s + 1, position := position s + of_nat (written r)\<rparr>"

text \<open>\<^verbatim>\<open>fseek(stream, offset, SEEK_SET)\<close> with a \<^verbatim>\<open>long\<close> offset: a negative offset fails and
  leaves the position where it was.\<close>

definition fseek :: "64 word \<Rightarrow> 64 word \<Rightarrow> 64 word" where
  "fseek pos offset = (if offset <s 0 then pos else offset)"

text \<open>The retry loop
  \<^verbatim>\<open>
  for (int i = 0; i < 5; i++) {
    res = curl_easy_perform(curl);
    if (res == CURLE_OK) break;
    if (i == 4) snprintf(log, ..., "... exiting...\n", ...);
    else        snprintf(log, ..., "... retrying...\n", ...);
    strcat(log_buffer, log);
    fseek(thread_info->buffer, thread_args->start, SEEK_SET);
    sleep(1);
  }
  \<close>
  where \<open>tr i\<close> is what the call of \<^verbatim>\<open>curl_easy_perform\<close> in iteration \<open>i\<close> does.\<close>

function worker_loop :: "(int \<Rightarrow> perform_result) \<Rightarrow> DLThreadArgs \<Rightarrow> int \<Rightarrow> worker_state \<Rightarrow> worker_state" where
  "worker_loop tr a i s =
     (if i < 5 then
        (let r = tr i; s1 = curl_easy_perform r s
         in if code r = CURLE_OK then s1
            else
              (let line = (if i = 4 then Error_exiting (index a) (errbuf r)
                           else Error_retrying (index a) (errbuf r));
                   s2 = s1\<lparr>logged := logged s1 @ [line]\<rparr>;
                   s3 = s2\<lparr>seeks := seeks s2 @ [start a], position := fseek (position s2) (start a)\<rparr>
               in worker_loop tr a (i + 1) s3))
      else s)"
  by pat_completeness auto
termination
  by (relation "measure (\<lambda>(tr, a, i, s). nat (5 - i))") auto

declare worker_loop.simps [simp del]

text \<open>\<^verbatim>\<open>download_worker\<close> up to the end of its loop, started with the \<^verbatim>\<open>FILE *\<close> at \<open>pos\<close>.
  What follows the loop (\<^verbatim>\<open>completed_counter++\<close> under the mutex, \<^verbatim>\<open>fclose\<close>) is the
  thread's last step in \<open>run_thread\<close> below.\<close>

definition download_worker :: "(int \<Rightarrow> perform_result) \<Rightarrow> DLThreadArgs \<Rightarrow> 64 word \<Rightarrow> worker_state" where
  "download_worker tr a pos = worker_loop tr a 0 \<lparr>attempts = 0, logged = [], seeks = [], position = pos\<rparr>"

text \<open>The two kinds of line a worker logs.\<close>

fun is_retrying :: "log_line \<Rightarrow> bool" where
  "is_retrying (Error_retrying i msg) = True"
| "is_retrying l = False"

fun is_exiting :: "log_line \<Rightarrow> bool" where
  "is_exiting (Error_exiting i msg) = True"
| "is_exiting l = False"

subsection \<open>Global state\<close>

record DLSettings =
  url :: string
  filename :: string
  max_threads :: int

text \<open>A running thread, as the other threads see it: the lines it has still to append to
  \<^verbatim>\<open>log_buffer\<close> (those its \<^verbatim>\<open>download_worker\<close> logs, in order), whether it has incremented
  \<^verbatim>\<open>completed_counter\<close> and returned, and whether \<^verbatim>\<open>pthread_cancel\<close> was called on it.\<close>

record pthread =
  pending :: "log_line list"
  returned :: bool
  cancelled :: bool

text \<open>The two settings of a curl handle that the controller changes after the start:
  \<^verbatim>\<open>CURLOPT_TIMEOUT_MS\<close> and the pause state set by \<^verbatim>\<open>curl_easy_pause\<close>.\<close>

record CURL =
  timeout_ms :: "int option"
  recv_paused :: bool

text \<open>\<^verbatim>\<open>DLThreadInfo\<close>; \<open>buffer\<close> is the position at which the thread's \<^verbatim>\<open>FILE *\<close> was
  handed to it.\<close>

record DLThreadInfo =
  thread :: pthread
  args :: DLThreadArgs
  curl :: CURL
  buffer :: "64 word"

text \<open>The globals and the outside world: \<open>dest_file\<close> is the content of the file at
  \<^verbatim>\<open>settings.filename\<close> (\<open>None\<close> when \<^verbatim>\<open>fopen(..., "r")\<close> fails), \<open>stdout\<close> the strings
  printed by \<^verbatim>\<open>setup_download\<close> and \<^verbatim>\<open>main\<close> (without the padding of \<^verbatim>\<open>print_center\<close>;
  the screens drawn by the probe and by the wait loop are left out).\<close>

record world =
  settings :: DLSettings
  dest_file :: "string option"
  stdout :: "string list"
  log_buffer :: "log_line list"
  thread_infos :: "DLThreadInfo list"
  completed_counter :: int
  paused :: bool

text \<open>The calls that can fail, and what the environment answers.\<close>

datatype fail_point =
    Malloc_thread_infos
  | Malloc_progress
  | Fopen_file
  | Fallocate
  | Ferror_file
  | Malloc_thread_info int
  | Fopen_buffer int
  | Malloc_args int

record env =
  probe_response :: "int \<Rightarrow> int \<Rightarrow> int"
  content_length :: int
  fails :: "fail_point \<Rightarrow> bool"
  answer :: char
  transport :: "int \<Rightarrow> int \<Rightarrow> perform_result"

text \<open>How a function ends: \<^verbatim>\<open>exit(status)\<close> (or \<^verbatim>\<open>return status\<close> from \<^verbatim>\<open>main\<close>), the
  trap of an integer division by zero, an ordinary return, or, for the wait loop, not
  yet within the given schedule.\<close>

datatype outcome = Exit int | Division_by_zero | Returned | Still_waiting

definition EXIT_SUCCESS :: int where "EXIT_SUCCESS = 0"
definition EXIT_FAILURE :: int where "EXIT_FAILURE = 1"

fun and_then :: "outcome \<times> world \<Rightarrow> (world \<Rightarrow> outcome \<times> world) \<Rightarrow> outcome \<times> world" where
  "and_then (Returned, w) f = f w"
| "and_then (out, w) f = (out, w)"

definition printf :: "string \<Rightarrow> world \<Rightarrow> world" where
  "printf s w = w\<lparr>stdout := stdout w @ [s]\<rparr>"

definition BOLD :: string where "BOLD = CHR 0x1B # ''[1m''"
definition CHECKMARK :: string where "CHECKMARK = [CHR 0xE2, CHR 0x9C, CHR 0x93]"

subsection \<open>Download setup (\<^verbatim>\<open>setup_download\<close>)\<close>

text \<open>Lines 373 to 382: \<^verbatim>\<open>fopen(settings.filename, "r")\<close>, the question, and
  \<^verbatim>\<open>if (c == 'n') exit(EXIT_SUCCESS);\<close>, where \<open>answer e\<close> is \<^verbatim>\<open>c\<close> after \<^verbatim>\<open>scanf("%c", &c)\<close>.\<close>

definition overwrite_question :: "string \<Rightarrow> string" where
  "overwrite_question name = RED @ BOLD @ NL @ ''File '' @ name @ '' already exists, overwrite? (y/n) '' @ RESET"

definition overwrite_check :: "env \<Rightarrow> world \<Rightarrow> outcome \<times> world" where
  "overwrite_check e w =
     (case dest_file w of
        None \<Rightarrow> (Returned, w)
      | Some old \<Rightarrow>
          (let w1 = printf (overwrite_question (filename (settings w))) w
           in if answer e = CHR ''n'' then (Exit EXIT_SUCCESS, w1) else (Returned, w1)))"

text \<open>\<^verbatim>\<open>fallocate(fd, 0, 0, len)\<close> extends a shorter file with zero bytes to \<open>len\<close> bytes.\<close>

definition fallocate :: "int \<Rightarrow> string \<Rightarrow> string" where
  "fallocate len content = content @ replicate (nat len - length content) (CHR 0x00)"

text \<open>Lines 384 to 400: \<^verbatim>\<open>fopen(settings.filename, "wb")\<close> truncates the file to length zero
  or creates it, \<^verbatim>\<open>fallocate\<close> sizes it, \<^verbatim>\<open>ferror\<close> is checked.\<close>

definition create_file :: "env \<Rightarrow> world \<Rightarrow> outcome \<times> world" where
  "create_file e w =
     (if fails e Fopen_file
      then (Exit EXIT_FAILURE, printf (''ERROR | Could not create file '' @ filename (settings w) @ NL) w)
      else
        (let w1 = w\<lparr>dest_file := Some []\<rparr>;
             w2 = (if fails e Fallocate then w1
                   else w1\<lparr>dest_file := Some (fallocate (content_length e) [])\<rparr>)
         in if fails e Ferror_file
            then (Exit EXIT_FAILURE,
                  printf (''ERROR | Could not allocate file '' @ filename (settings w) @ NL) w2)
            else (Returned, w2)))"

text \<open>Lines 404 to 455, the loop \<^verbatim>\<open>for (int i = 0; i < settings.max_threads; i++)\<close> with
  \<open>n\<close> for \<^verbatim>\<open>settings.max_threads\<close>. \<open>new_thread\<close> is the entry \<^verbatim>\<open>thread_infos[i]\<close> once the
  iteration has filled it: the \<^verbatim>\<open>FILE *\<close> sought to \<^verbatim>\<open>i * chunk_size\<close>, the arguments, a fresh
  curl handle, and the thread that \<^verbatim>\<open>pthread_create\<close> starts on \<^verbatim>\<open>download_worker\<close>, which
  will append the lines its worker logs.\<close>

definition new_thread :: "env \<Rightarrow> int \<Rightarrow> int \<Rightarrow> int \<Rightarrow> DLThreadInfo" where
  "new_thread e res n i =
     (let pos = fseek 0 (word_of_int (i * chunk_size res n));
          a = thread_args res n i
      in \<lparr>thread = \<lparr>pending = logged (download_worker (transport e i) a pos),
                     returned = False, cancelled = False\<rparr>,
          args = a,
          curl = \<lparr>timeout_ms = None, recv_paused = False\<rparr>,
          buffer = pos\<rparr>)"

text \<open>Each iteration opens the file with mode \<^verbatim>\<open>"wb"\<close> again, which truncates it again.\<close>

function create_threads :: "env \<Rightarrow> int \<Rightarrow> int \<Rightarrow> int \<Rightarrow> world \<Rightarrow> outcome \<times> world" where
  "create_threads e res n i w =
     (if i < n then
        (if fails e (Malloc_thread_info i)
         then (Exit EXIT_FAILURE,
               printf (''ERROR | Could not allocate thread_info for thread '' @ string_of_int i @ NL) w)
         else if fails e (Fopen_buffer i)
         then (Exit EXIT_FAILURE,
               printf (''ERROR | Could not open file '' @ filename (settings w) @ '' for thread ''
                         @ string_of_int i @ NL) w)
         else
           (let w1 = w\<lparr>dest_file := Some []\<rparr>
            in if fails e (Malloc_args i)
               then (Exit EXIT_FAILURE,
                     printf (''ERROR | Could not allocate thread_args for thread '' @ string_of_int i @ NL) w1)
               else create_threads e res n (i + 1)
                      (w1\<lparr>thread_infos := thread_infos w1 @ [new_thread e res n i],
                          log_buffer := log_buffer w1 @ [Info_started i]\<rparr>)))
      else (Returned, w))"
  by pat_completeness auto
termination
  by (relation "measure (\<lambda>(e, res, n, i, w). nat (n - i))") auto

declare create_threads.simps [simp del]

text \<open>\<^verbatim>\<open>setup_download\<close>: the content length \<^verbatim>\<open>res\<close> is checked first, then
  \<^verbatim>\<open>res / settings.max_threads\<close> is evaluated, which traps when the divisor is zero.\<close>

definition setup_download :: "env \<Rightarrow> world \<Rightarrow> outcome \<times> world" where
  "setup_download e w =
     (let res = content_length e; n = max_threads (settings w)
      in if res \<le> 0
         then (Exit EXIT_FAILURE, printf (''ERROR | Could not fetch content length'' @ NL) w)
         else if n = 0 then (Division_by_zero, w)
         else if fails e Malloc_thread_infos
         then (Exit EXIT_FAILURE, printf (''ERROR | Could not allocate thread_infos'' @ NL) w)
         else if fails e Malloc_progress
         then (Exit EXIT_FAILURE, printf (''ERROR | Could not allocate progress'' @ NL) w)
         else and_then (overwrite_check e (w\<lparr>paused := False\<rparr>))
                (\<lambda>w1. and_then (create_file e w1) (create_threads e res n 0)))"

subsection \<open>The controller (\<^verbatim>\<open>wait_for_threads\<close>) and \<^verbatim>\<open>main\<close>\<close>

text \<open>Thread \<open>k\<close> takes its next step on the shared state: it appends its next log line,
  or, when it has none left, increments \<^verbatim>\<open>completed_counter\<close> and returns. A thread that
  has returned or was cancelled does nothing.\<close>

definition run_thread :: "nat \<Rightarrow> world \<Rightarrow> world" where
  "run_thread k w =
     (if k < length (thread_infos w) then
        (let t = thread_infos w ! k; th = thread t
         in if cancelled th \<or> returned th then w
            else
              (case pending th of
                 l # ls \<Rightarrow>
                   w\<lparr>log_buffer := log_buffer w @ [l],
                     thread_infos := (thread_infos w)[k := t\<lparr>thread := th\<lparr>pending := ls\<rparr>\<rparr>]\<rparr>
               | [] \<Rightarrow>
                   w\<lparr>completed_counter := completed_counter w + 1,
                     thread_infos := (thread_infos w)[k := t\<lparr>thread := th\<lparr>returned := True\<rparr>\<rparr>]\<rparr>))
      else w)"

definition pause_handler :: "world \<Rightarrow> world" where
  "pause_handler w =
     (if paused w
      then w\<lparr>thread_infos := map (\<lambda>t. t\<lparr>curl := (curl t)\<lparr>recv_paused := False\<rparr>\<rparr>) (thread_infos w),
             paused := False, log_buffer := log_buffer w @ [Info_resumed]\<rparr>
      else w\<lparr>thread_infos := map (\<lambda>t. t\<lparr>curl := (curl t)\<lparr>recv_paused := True\<rparr>\<rparr>) (thread_infos w),
             paused := True, log_buffer := log_buffer w @ [Info_paused]\<rparr>)"

definition quit_handler :: "world \<Rightarrow> world" where
  "quit_handler w = w\<lparr>log_buffer := log_buffer w @ [Error_cancelled]\<rparr>"

text \<open>Lines 616 to 622:
  \<^verbatim>\<open>
      for (int i = 0; i < settings.max_threads; i++) {
        curl_easy_setopt(thread_infos[i]->curl, CURLOPT_TIMEOUT_MS, 1);
        pthread_cancel(thread_infos[i]->thread);
      }
  \<close>\<close>

definition cancel_all :: "world \<Rightarrow> world" where
  "cancel_all w =
     w\<lparr>thread_infos :=
         map (\<lambda>t. t\<lparr>curl := (curl t)\<lparr>timeout_ms := Some 1\<rparr>, thread := (thread t)\<lparr>cancelled := True\<rparr>\<rparr>)
           (thread_infos w)\<rparr>"

text \<open>A schedule interleaves the steps of the threads with the iterations of the wait
  loop: \<open>Run k\<close> is a step of thread \<open>k\<close>, \<open>Tick c\<close> one test of the loop condition followed,
  when it holds, by one loop body in which \<^verbatim>\<open>getch()\<close> gives \<open>c\<close>.\<close>

datatype event = Run nat | Tick char

text \<open>\<^verbatim>\<open>wait_for_threads\<close>: \<open>Some\<close> of the state in which the function returns, \<open>None\<close> when
  the schedule ends with the loop still running.\<close>

fun wait_for_threads :: "event list \<Rightarrow> world \<Rightarrow> world option" where
  "wait_for_threads [] w = None"
| "wait_for_threads (Run k # es) w = wait_for_threads es (run_thread k w)"
| "wait_for_threads (Tick c # es) w =
     (if completed_counter w < max_threads (settings w) then
        (let w1 = (if c = CHR ''p'' \<or> c = CHR ''P'' then pause_handler w else w);
             w2 = (if c = CHR ''q'' \<or> c = CHR ''Q'' then quit_handler w1 else w1)
         in if strstr (log_text (log_buffer w2)) ''exiting...'' then Some (cancel_all w2)
            else wait_for_threads es w2)
      else Some w)"

text \<open>\<^verbatim>\<open>main\<close> from the probe on (after \<^verbatim>\<open>parse_args\<close>). First the probe's result replaces
  \<^verbatim>\<open>settings.max_threads\<close>:
  \<^verbatim>\<open>
  settings.max_threads = find_max_threads();
  printf(BOLD "\nMax threads updated: %d\n" RESET "Starting download in 2 seconds...\n", ...);
  \<close>\<close>

definition update_max_threads :: "env \<Rightarrow> world \<Rightarrow> world" where
  "update_max_threads e w =
     (let n = find_max_threads (probe_response e) (max_threads (settings w))
      in printf (BOLD @ NL @ ''Max threads updated: '' @ string_of_int n @ NL @ RESET
                   @ ''Starting download in 2 seconds...'' @ NL)
           (w\<lparr>settings := (settings w)\<lparr>max_threads := n\<rparr>\<rparr>))"

text \<open>Then setup, the wait loop, and the final message, which no test guards:
  \<^verbatim>\<open>
  wait_for_threads();
  printf("\n\n" GREEN BOLD);
  print_center("Download Complete ");
  printf(CHECKMARK "\n" RESET);
  ...
  return 0;
  \<close>\<close>

definition main :: "env \<Rightarrow> event list \<Rightarrow> world \<Rightarrow> outcome \<times> world" where
  "main e sched w =
     and_then (setup_download e (update_max_threads e w))
       (\<lambda>w3. case wait_for_threads sched w3 of
                None \<Rightarrow> (Still_waiting, w3)
              | Some w4 \<Rightarrow>
                  (Exit 0,
                   printf (CHECKMARK @ NL @ RESET)
                     (printf ''Download Complete '' (printf (NL @ NL @ GREEN @ BOLD) w4))))"

subsection \<open>A concrete run\<close>

text \<open>An environment in which nothing fails (every probe request returns 200, every
  transfer succeeds at once, the answer to the overwrite question is \<^verbatim>\<open>y\<close>) and the state
  in which \<^verbatim>\<open>main\<close> starts, to be varied in the examples below.\<close>

definition example_env :: "int \<Rightarrow> env" where
  "example_env res =
     \<lparr>probe_response = (\<lambda>i j. 200),
      content_length = res,
      fails = (\<lambda>p. False),
      answer = CHR ''y'',
      transport = (\<lambda>k i. \<lparr>code = CURLE_OK, written = 0, errbuf = []\<rparr>)\<rparr>"

definition example_world :: "int \<Rightarrow> world" where
  "example_world n =
     \<lparr>settings = \<lparr>url = ''http://localhost/f'', filename = ''f'', max_threads = n\<rparr>,
      dest_file = None,
      stdout = [],
      log_buffer = [],
      thread_infos = [],
      completed_counter = 0,
      paused = False\<rparr>"

text \<open>The same environment with a first segment that never arrives: every transfer of
  thread 0 fails with the text of \<^verbatim>\<open>CURLE_OPERATION_TIMEDOUT\<close> (28).\<close>

definition lost_segment_env :: "int \<Rightarrow> env" where
  "lost_segment_env res =
     (example_env res)
       \<lparr>transport := (\<lambda>k i. if k = 0
                             then \<lparr>code = CURLE_failed 28, written = 0, errbuf = ''Timeout was reached''\<rparr>
                             else \<lparr>code = CURLE_OK, written = 0, errbuf = []\<rparr>)\<rparr>"

text \<open>The run of \<^verbatim>\<open>main\<close> for 1000 bytes and 2 threads in that environment: the state in
  which \<^verbatim>\<open>setup_download\<close> returns, and the state after thread 0 has appended its five
  lines while thread 1 is still transferring.\<close>

definition lost_segment_world :: world where
  "lost_segment_world =
     snd (setup_download (lost_segment_env 1000) (update_max_threads (lost_segment_env 1000) (example_world 2)))"

definition lost_segment_failed :: world where
  "lost_segment_failed =
     run_thread 0 (run_thread 0 (run_thread 0 (run_thread 0 (run_thread 0 lost_segment_world))))"

section \<open>Properties\<close>

subsection \<open>The plan\<close>

text \<open>The loop builds the list of the arguments of the threads 0 to \<open>n - 1\<close>.\<close>

lemma plan_from_upto: "plan_from res n i = map (thread_args res n) [i..n - 1]"
proof (induction res n i rule: plan_from.induct)
  case (1 res n i)
  show ?case
  proof (cases "i < n")
    case True
    then have "[i..n - 1] = i # [i + 1..n - 1]" by (simp add: upto_rec1)
    with True 1 show ?thesis by (simp add: plan_from.simps [of res n i])
  next
    case False
    then show ?thesis by (simp add: plan_from.simps [of res n i])
  qed
qed

lemma plan_upto: "plan res n = map (thread_args res n) [0..n - 1]"
  by (simp add: plan_def plan_from_upto)

lemma length_plan: "length (plan res n) = nat n"
  by (simp add: plan_upto)

lemma nth_plan: "k < nat n \<Longrightarrow> plan res n ! k = thread_args res n (int k)"
  by (simp add: plan_upto)

lemma set_plan: "set (plan res n) = thread_args res n ` {0..n - 1}"
  by (simp add: plan_upto)

lemma chunk_size_div: "0 < res \<Longrightarrow> 0 < n \<Longrightarrow> chunk_size res n = res div n"
  by (simp add: chunk_size_def signed_divide_int_def sgn_if)

lemma uint_of_int64: "0 \<le> a \<Longrightarrow> a < 2 ^ 64 \<Longrightarrow> uint (word_of_int a :: 64 word) = a"
  by (simp add: uint_word_of_int_eq take_bit_int_eq_self)

text \<open>Arithmetic of the chunk size, and the fields of a segment read as numbers.\<close>

lemma chunk_ge1: "0 < n \<Longrightarrow> n \<le> res \<Longrightarrow> 1 \<le> res div (n::int)"
  by (simp add: pos_imp_zdiv_pos_iff int_one_le_iff_zero_less)

lemma chunk_mult_le: "0 < n \<Longrightarrow> 0 \<le> i \<Longrightarrow> i \<le> n \<Longrightarrow> 0 \<le> res \<Longrightarrow> i * (res div n) \<le> (res::int)"
proof -
  assume a: "0 < n" "0 \<le> i" "i \<le> n" "0 \<le> res"
  then have "0 \<le> res div n" by (simp add: pos_imp_zdiv_nonneg_iff)
  with a have "i * (res div n) \<le> n * (res div n)" by (simp add: mult_right_mono)
  also have "\<dots> \<le> res" using a pos_mod_sign [of n res] by (simp add: minus_mod_eq_mult_div [symmetric])
  finally show ?thesis .
qed

lemma args_index: "index (thread_args res n i) = i"
  by (simp add: thread_args_def Let_def)

lemma args_start: "start (thread_args res n i) = word_of_int (i * chunk_size res n)"
  by (simp add: thread_args_def Let_def)

lemma args_end: "end' (thread_args res n i) =
   (if i = n - 1 then word_of_int res else word_of_int ((i + 1) * chunk_size res n - 1))"
  by (simp add: thread_args_def Let_def)

lemma uint_start:
  assumes "0 < res" "res < 2 ^ 63" "0 < n" "0 \<le> i" "i < n"
  shows "uint (start (thread_args res n i)) = i * (res div n)"
proof -
  have "0 \<le> res div n" using assms by (simp add: pos_imp_zdiv_nonneg_iff)
  then have "0 \<le> i * (res div n)" using assms by simp
  moreover have "i * (res div n) \<le> res" using assms by (simp add: chunk_mult_le)
  ultimately have "uint (word_of_int (i * (res div n)) :: 64 word) = i * (res div n)"
    using assms by (intro uint_of_int64) auto
  then show ?thesis using assms by (simp only: args_start chunk_size_div)
qed

lemma uint_end_last:
  assumes "0 < res" "res < 2 ^ 63"
  shows "uint (end' (thread_args res n (n - 1))) = res"
  using assms by (simp add: args_end uint_of_int64)

lemma uint_end_inner:
  assumes "0 < res" "res < 2 ^ 63" "0 < n" "n \<le> res" "0 \<le> i" "i < n - 1"
  shows "uint (end' (thread_args res n i)) = (i + 1) * (res div n) - 1"
proof -
  have c: "1 \<le> res div n" using assms by (simp add: chunk_ge1)
  then have "1 * 1 \<le> (i + 1) * (res div n)" using assms by (intro mult_mono) auto
  then have "0 \<le> (i + 1) * (res div n) - 1" by simp
  moreover have "(i + 1) * (res div n) \<le> res" using assms by (intro chunk_mult_le) auto
  ultimately have "uint (word_of_int ((i + 1) * (res div n) - 1) :: 64 word) = (i + 1) * (res div n) - 1"
    using assms by (intro uint_of_int64) auto
  moreover have "i \<noteq> n - 1" using assms by simp
  ultimately show ?thesis using assms by (simp only: args_end chunk_size_div if_False)
qed

text \<open>Coverage, order and contiguity of the segments when every thread gets at least one
  byte.\<close>

lemma uint_end_le:
  assumes "0 < res" "res < 2 ^ 63" "0 < n" "n \<le> res" "0 \<le> i" "i < n"
  shows "uint (end' (thread_args res n i)) \<le> res"
proof (cases "i = n - 1")
  case True
  then show ?thesis using assms uint_end_last [of res n] by simp
next
  case False
  then have i: "i < n - 1" using assms by simp
  have "(i + 1) * (res div n) \<le> res" using assms by (intro chunk_mult_le) auto
  then show ?thesis using uint_end_inner [OF assms(1-5) i] by simp
qed

lemma covered_iff:
  assumes "0 < res" "res < 2 ^ 63" "0 < n" "n \<le> res"
  shows "covered (plan res n) b \<longleftrightarrow> b \<le> word_of_int res"
proof
  assume "covered (plan res n) b"
  then obtain i where i: "0 \<le> i" "i < n" and seg: "in_segment (thread_args res n i) b"
    by (auto simp: covered_def list_ex_iff set_plan)
  from seg have "uint b \<le> uint (end' (thread_args res n i))"
    by (simp add: in_segment_def word_le_def)
  also have "\<dots> \<le> res" using assms i by (rule uint_end_le)
  finally show "b \<le> word_of_int res"
    using assms by (simp add: word_le_def uint_of_int64)
next
  assume "b \<le> word_of_int res"
  then have x: "uint b \<le> res" using assms by (simp add: word_le_def uint_of_int64)
  define cs where "cs = res div n"
  have cs: "1 \<le> cs" unfolding cs_def using assms by (simp add: chunk_ge1)
  define i where "i = min (uint b div cs) (n - 1)"
  have i0: "0 \<le> i" using assms cs by (simp add: i_def pos_imp_zdiv_nonneg_iff)
  have i1: "i < n" by (simp add: i_def)
  have lo: "i * cs \<le> uint b"
  proof -
    have "i * cs \<le> (uint b div cs) * cs" using cs by (intro mult_right_mono) (auto simp: i_def)
    also have "\<dots> \<le> uint b" using cs pos_mod_sign [of cs "uint b"]
      by (simp add: minus_mod_eq_div_mult [symmetric])
    finally show ?thesis .
  qed
  have "in_segment (thread_args res n i) b"
  proof (cases "i = n - 1")
    case True
    then have "uint (end' (thread_args res n i)) = res" using assms uint_end_last [of res n] by simp
    moreover have "uint (start (thread_args res n i)) = i * cs"
      unfolding cs_def using assms i0 i1 by (intro uint_start) auto
    ultimately show ?thesis using lo x by (simp add: in_segment_def word_le_def)
  next
    case False
    then have i2: "i < n - 1" using i1 by simp
    then have ieq: "i = uint b div cs" by (simp add: i_def min_def split: if_splits)
    have "uint b mod cs < cs" using cs by simp
    moreover have "uint b = (uint b div cs) * cs + uint b mod cs" by simp
    ultimately have "uint b < (uint b div cs) * cs + cs" by linarith
    then have "uint b < (i + 1) * cs" unfolding ieq by (simp add: algebra_simps)
    moreover have "uint (end' (thread_args res n i)) = (i + 1) * cs - 1"
      unfolding cs_def using assms i0 i2 by (intro uint_end_inner) auto
    moreover have "uint (start (thread_args res n i)) = i * cs"
      unfolding cs_def using assms i0 i1 by (intro uint_start) auto
    ultimately show ?thesis using lo by (simp add: in_segment_def word_le_def)
  qed
  then show "covered (plan res n) b"
    using i0 i1 by (auto simp: covered_def list_ex_iff set_plan)
qed

lemma segments_ordered:
  assumes "0 < res" "res < 2 ^ 63" "0 < n" "n \<le> res" "0 \<le> i" "i < j" "j < n"
  shows "end' (thread_args res n i) < start (thread_args res n j)"
proof -
  have cs: "1 \<le> res div n" using assms by (simp add: chunk_ge1)
  have "(i + 1) * (res div n) \<le> j * (res div n)" using assms cs by (intro mult_right_mono) auto
  moreover have "uint (end' (thread_args res n i)) = (i + 1) * (res div n) - 1"
    using assms by (intro uint_end_inner) auto
  moreover have "uint (start (thread_args res n j)) = j * (res div n)"
    using assms by (intro uint_start) auto
  ultimately show ?thesis by (simp add: word_less_def)
qed

lemma segments_contiguous:
  assumes "i \<noteq> n - 1"
  shows "start (thread_args res n (i + 1)) = end' (thread_args res n i) + 1"
  using assms by (simp add: args_start args_end)

lemma chunk_trunc:
  assumes "0 < res" "0 < n"
  shows "chunk_size res n * n \<le> res \<and> res < (chunk_size res n + 1) * n"
proof -
  have "res = (res div n) * n + res mod n" by simp
  moreover have "0 \<le> res mod n" "res mod n < n" using assms by simp_all
  ultimately have "(res div n) * n \<le> res \<and> res < (res div n) * n + n" by linarith
  then show ?thesis using assms by (simp add: chunk_size_div algebra_simps)
qed

lemma plan_1000_4: "plan 1000 4 = [\<lparr>index = 0, start = 0, end' = 249\<rparr>, \<lparr>index = 1, start = 250, end' = 499\<rparr>,
   \<lparr>index = 2, start = 500, end' = 749\<rparr>, \<lparr>index = 3, start = 750, end' = 1000\<rparr>]"
  by (simp add: plan_upto upto_rec1 thread_args_def chunk_size_def signed_divide_int_def)

text \<open>
  Claim C2. For every content length \<open>res > 0\<close> and thread count \<open>n \<ge> 1\<close> the chunk size
  is the truncated quotient \<open>res div n\<close> (so \<open>chunk * n \<le> res < (chunk + 1) * n\<close>), the plan
  has \<open>n\<close> segments, segment \<open>k\<close> has index \<open>k\<close>, start \<open>k * chunk\<close> and end
  \<open>(k + 1) * chunk - 1\<close> as values of the unsigned 64-bit fields, and the end of the last
  segment is the content length itself. When \<open>n \<le> res\<close> (and \<open>res\<close> is a \<^verbatim>\<open>curl_off_t\<close>,
  below \<open>2 ^ 63\<close>) nothing wraps and the fields hold these numbers. For 1000 bytes and 4
  threads the plan is [0,249], [250,499], [500,749], [750,1000].
\<close>

theorem plan_formula:
  assumes "0 < res" "1 \<le> n"
  shows "chunk_size res n = res div n
       \<and> chunk_size res n * n \<le> res \<and> res < (chunk_size res n + 1) * n
       \<and> length (plan res n) = nat n
       \<and> (\<forall>k < nat n.
            index (plan res n ! k) = int k
          \<and> start (plan res n ! k) = word_of_int (int k * chunk_size res n)
          \<and> end' (plan res n ! k) =
              (if int k = n - 1 then word_of_int res
               else word_of_int ((int k + 1) * chunk_size res n - 1)))
       \<and> (res < 2 ^ 63 \<and> n \<le> res \<longrightarrow>
            (\<forall>k < nat n.
               uint (start (plan res n ! k)) = int k * chunk_size res n
             \<and> uint (end' (plan res n ! k)) =
                 (if int k = n - 1 then res else (int k + 1) * chunk_size res n - 1)))
       \<and> plan 1000 4 = [\<lparr>index = 0, start = 0, end' = 249\<rparr>, \<lparr>index = 1, start = 250, end' = 499\<rparr>,
                        \<lparr>index = 2, start = 500, end' = 749\<rparr>, \<lparr>index = 3, start = 750, end' = 1000\<rparr>]"
proof -
  have n: "0 < n" using assms by simp
  have cs: "chunk_size res n = res div n" using assms by (simp add: chunk_size_div)
  have trunc: "chunk_size res n * n \<le> res \<and> res < (chunk_size res n + 1) * n"
    using assms by (intro chunk_trunc) auto
  have len: "length (plan res n) = nat n" by (rule length_plan)
  have fields: "\<forall>k < nat n.
            index (plan res n ! k) = int k
          \<and> start (plan res n ! k) = word_of_int (int k * chunk_size res n)
          \<and> end' (plan res n ! k) =
              (if int k = n - 1 then word_of_int res
               else word_of_int ((int k + 1) * chunk_size res n - 1))"
  proof (intro allI impI)
    fix k assume "k < nat n"
    then have "plan res n ! k = thread_args res n (int k)" by (rule nth_plan)
    then show "index (plan res n ! k) = int k
          \<and> start (plan res n ! k) = word_of_int (int k * chunk_size res n)
          \<and> end' (plan res n ! k) =
              (if int k = n - 1 then word_of_int res
               else word_of_int ((int k + 1) * chunk_size res n - 1))"
      by (simp only: args_index args_start args_end)
  qed
  have nums: "\<forall>k < nat n.
               uint (start (plan res n ! k)) = int k * chunk_size res n
             \<and> uint (end' (plan res n ! k)) =
                 (if int k = n - 1 then res else (int k + 1) * chunk_size res n - 1)"
    if r: "res < 2 ^ 63 \<and> n \<le> res"
  proof (intro allI impI)
    fix k assume k: "k < nat n"
    then have nth: "plan res n ! k = thread_args res n (int k)" by (rule nth_plan)
    have k0: "0 \<le> int k" and kn: "int k < n" using k by simp_all
    have s: "uint (start (thread_args res n (int k))) = int k * (res div n)"
      using assms(1) r n k0 kn by (intro uint_start) auto
    have e: "uint (end' (thread_args res n (int k))) =
               (if int k = n - 1 then res else (int k + 1) * (res div n) - 1)"
    proof (cases "int k = n - 1")
      case True
      then show ?thesis using uint_end_last [of res n] assms(1) r by simp
    next
      case False
      then have "int k < n - 1" using kn by simp
      then show ?thesis using False assms(1) r n k0 by (simp add: uint_end_inner)
    qed
    show "uint (start (plan res n ! k)) = int k * chunk_size res n
             \<and> uint (end' (plan res n ! k)) =
                 (if int k = n - 1 then res else (int k + 1) * chunk_size res n - 1)"
      using s e by (simp only: nth cs)
  qed
  from cs trunc len fields nums plan_1000_4 show ?thesis by blast
qed

theorem plan_formula_witness:
  "(0::int) < 1003 \<and> (1::int) \<le> 4 \<and> (2::nat) < nat 4 \<and> (3::nat) < nat 4
   \<and> (1003::int) < 2 ^ 63 \<and> (4::int) \<le> 1003
   \<and> chunk_size 1003 4 = 250 \<and> length (plan 1003 4) = 4
   \<and> index (plan 1003 4 ! 2) = 2 \<and> start (plan 1003 4 ! 2) = 500 \<and> end' (plan 1003 4 ! 2) = 749
   \<and> index (plan 1003 4 ! 3) = 3 \<and> start (plan 1003 4 ! 3) = 750 \<and> end' (plan 1003 4 ! 3) = 1003
   \<and> uint (start (plan 1003 4 ! 2)) = 500 \<and> uint (end' (plan 1003 4 ! 2)) = 749
   \<and> uint (end' (plan 1003 4 ! 3)) = 1003"
proof -
  have h: "(0::int) < 1003" "(1::int) \<le> 4" by simp_all
  have r: "(1003::int) < 2 ^ 63 \<and> (4::int) \<le> 1003" by simp
  have c: "chunk_size 1003 4 = 250" using plan_formula [OF h] by simp
  have k2: "(2::nat) < nat 4" and k3: "(3::nat) < nat 4" by simp_all
  from plan_formula [OF h] have
    all: "\<forall>k < nat 4. index (plan 1003 4 ! k) = int k
          \<and> start (plan 1003 4 ! k) = word_of_int (int k * chunk_size 1003 4)
          \<and> end' (plan 1003 4 ! k) =
              (if int k = 4 - 1 then word_of_int 1003
               else word_of_int ((int k + 1) * chunk_size 1003 4 - 1))"
    and len: "length (plan 1003 4) = nat 4"
    and unwrapped: "(1003::int) < 2 ^ 63 \<and> (4::int) \<le> 1003 \<longrightarrow>
            (\<forall>k < nat 4.
               uint (start (plan 1003 4 ! k)) = int k * chunk_size 1003 4
             \<and> uint (end' (plan 1003 4 ! k)) =
                 (if int k = 4 - 1 then 1003 else (int k + 1) * chunk_size 1003 4 - 1))"
    by blast+
  from all k2 have w2: "index (plan 1003 4 ! 2) = 2 \<and> start (plan 1003 4 ! 2) = 500 \<and> end' (plan 1003 4 ! 2) = 749"
    by (simp add: c)
  from all k3 have w3: "index (plan 1003 4 ! 3) = 3 \<and> start (plan 1003 4 ! 3) = 750 \<and> end' (plan 1003 4 ! 3) = 1003"
    by (simp add: c)
  from unwrapped r have vals: "\<forall>k < nat 4.
               uint (start (plan 1003 4 ! k)) = int k * chunk_size 1003 4
             \<and> uint (end' (plan 1003 4 ! k)) =
                 (if int k = 4 - 1 then 1003 else (int k + 1) * chunk_size 1003 4 - 1)"
    by blast
  from vals k2 have v2: "uint (start (plan 1003 4 ! 2)) = 500 \<and> uint (end' (plan 1003 4 ! 2)) = 749"
    by (simp add: c)
  from vals k3 have v3: "uint (end' (plan 1003 4 ! 3)) = 1003"
    by (simp add: c)
  show ?thesis using c len w2 w3 v2 v3 by simp
qed

text \<open>
  Claim C1, as amended. For \<open>0 < res\<close> (a \<^verbatim>\<open>curl_off_t\<close>, so below \<open>2 ^ 63\<close>) and
  \<open>1 \<le> n \<le> res\<close>, the byte offsets requested by the plan are exactly the closed range
  from 0 to \<open>res\<close> (the offset \<open>res\<close> included, since the last segment ends at \<open>res\<close>); the
  first segment starts at 0 and every later one starts one past the end of its
  predecessor (no gap, no overlap); and of two distinct segments one ends before the
  other starts.
\<close>

theorem plan_covers_closed_range:
  assumes "0 < res" "res < 2 ^ 63" "1 \<le> n" "n \<le> res"
  shows "(\<forall>b. covered (plan res n) b \<longleftrightarrow> b \<le> word_of_int res)
       \<and> start (plan res n ! 0) = 0
       \<and> (\<forall>k. Suc k < nat n \<longrightarrow> start (plan res n ! Suc k) = end' (plan res n ! k) + 1)
       \<and> (\<forall>i j. i < nat n \<and> j < nat n \<and> i \<noteq> j \<longrightarrow>
             end' (plan res n ! i) < start (plan res n ! j) \<or> end' (plan res n ! j) < start (plan res n ! i))"
proof -
  have n: "0 < n" using assms by simp
  have cov: "\<forall>b. covered (plan res n) b \<longleftrightarrow> b \<le> word_of_int res"
    using covered_iff [OF assms(1,2) n assms(4)] by blast
  have first: "start (plan res n ! 0) = 0"
    using n by (simp add: nth_plan args_start)
  have contig: "\<forall>k. Suc k < nat n \<longrightarrow> start (plan res n ! Suc k) = end' (plan res n ! k) + 1"
  proof (intro allI impI)
    fix k assume k: "Suc k < nat n"
    then have "int k \<noteq> n - 1" by linarith
    then have "start (thread_args res n (int k + 1)) = end' (thread_args res n (int k)) + 1"
      by (rule segments_contiguous)
    moreover have "int (Suc k) = int k + 1" by simp
    ultimately show "start (plan res n ! Suc k) = end' (plan res n ! k) + 1"
      using k by (simp only: nth_plan Suc_lessD)
  qed
  have ordered: "end' (plan res n ! i) < start (plan res n ! j)" if "i < j" "j < nat n" for i j
  proof -
    have "end' (thread_args res n (int i)) < start (thread_args res n (int j))"
      using assms(1,2) n assms(4) that by (intro segments_ordered) auto
    then show ?thesis using that by (simp add: nth_plan)
  qed
  have disj: "\<forall>i j. i < nat n \<and> j < nat n \<and> i \<noteq> j \<longrightarrow>
             end' (plan res n ! i) < start (plan res n ! j) \<or> end' (plan res n ! j) < start (plan res n ! i)"
  proof (intro allI impI)
    fix i j assume h: "i < nat n \<and> j < nat n \<and> i \<noteq> j"
    then consider "i < j" | "j < i" by linarith
    then show "end' (plan res n ! i) < start (plan res n ! j) \<or> end' (plan res n ! j) < start (plan res n ! i)"
      using h ordered by cases auto
  qed
  from cov first contig disj show ?thesis by blast
qed

theorem plan_covers_closed_range_witness:
  "(0::int) < 1000 \<and> (1000::int) < 2 ^ 63 \<and> (1::int) \<le> 4 \<and> (4::int) \<le> 1000
   \<and> covered (plan 1000 4) 999 \<and> covered (plan 1000 4) 1000 \<and> \<not> covered (plan 1000 4) 1001
   \<and> start (plan 1000 4 ! 0) = 0
   \<and> start (plan 1000 4 ! Suc 0) = end' (plan 1000 4 ! 0) + 1
   \<and> (end' (plan 1000 4 ! 1) < start (plan 1000 4 ! 3) \<or> end' (plan 1000 4 ! 3) < start (plan 1000 4 ! 1))"
proof -
  have h: "(0::int) < 1000" "(1000::int) < 2 ^ 63" "(1::int) \<le> 4" "(4::int) \<le> 1000" by simp_all
  note t = plan_covers_closed_range [OF h]
  from t have cov: "\<And>b. covered (plan 1000 4) b \<longleftrightarrow> b \<le> word_of_int 1000" by blast
  from t have c: "Suc 0 < nat 4 \<longrightarrow> start (plan 1000 4 ! Suc 0) = end' (plan 1000 4 ! 0) + 1" by blast
  from t have d: "(1::nat) < nat 4 \<and> (3::nat) < nat 4 \<and> (1::nat) \<noteq> 3 \<longrightarrow>
     end' (plan 1000 4 ! 1) < start (plan 1000 4 ! 3) \<or> end' (plan 1000 4 ! 3) < start (plan 1000 4 ! 1)" by blast
  from t have f: "start (plan 1000 4 ! 0) = 0" by blast
  show ?thesis using c d f by (simp add: cov)
qed

text \<open>
  Claim C1 as stated fails: with 1000 bytes and 4 threads the offset 1000 is requested
  (by the last segment, [750,1000]) although it is outside the half-open range from 0 to
  1000.
\<close>

theorem plan_coverage_counterexample:
  "covered (plan 1000 4) 1000 \<and> (1000 :: 64 word) \<notin> {0 ..< 1000}"
  by (simp add: plan_1000_4 covered_def in_segment_def)

subsection \<open>The probe\<close>

text \<open>The inner loop tests every request of a level; the outer loop stops at the first
  level that fails.\<close>

lemma all_200_iff: "all_200 resp i j \<longleftrightarrow> (\<forall>j'. j \<le> j' \<and> j' < i \<longrightarrow> resp j' = 200)"
proof (induction resp i j rule: all_200.induct)
  case (1 resp i j)
  show ?case
  proof (cases "j < i")
    case False
    then show ?thesis by (simp add: all_200.simps [of resp i j])
  next
    case True
    show ?thesis
    proof (cases "resp j = 200")
      case False
      with True show ?thesis by (auto simp: all_200.simps [of resp i j])
    next
      case r: True
      have "(\<forall>j'. j \<le> j' \<and> j' < i \<longrightarrow> resp j' = 200) \<longleftrightarrow> (\<forall>j'. j + 1 \<le> j' \<and> j' < i \<longrightarrow> resp j' = 200)"
      proof
        assume "\<forall>j'. j \<le> j' \<and> j' < i \<longrightarrow> resp j' = 200"
        then show "\<forall>j'. j + 1 \<le> j' \<and> j' < i \<longrightarrow> resp j' = 200" by simp
      next
        assume a: "\<forall>j'. j + 1 \<le> j' \<and> j' < i \<longrightarrow> resp j' = 200"
        show "\<forall>j'. j \<le> j' \<and> j' < i \<longrightarrow> resp j' = 200"
        proof (intro allI impI)
          fix j' assume "j \<le> j' \<and> j' < i"
          then consider "j' = j" | "j + 1 \<le> j' \<and> j' < i" by linarith
          then show "resp j' = 200" using r a by cases auto
        qed
      qed
      with True r 1 show ?thesis by (simp add: all_200.simps [of resp i j])
    qed
  qed
qed

lemma probe_from_stops:
  assumes "k < n"
    and "\<forall>i. l \<le> i \<and> i \<le> k \<longrightarrow> all_200 (resp i) i 0"
    and "\<not> all_200 (resp (k + 1)) (k + 1) 0"
    and "l \<le> k + 1"
  shows "probe_from resp n l m = k"
  using assms
proof (induction "nat (k + 1 - l)" arbitrary: l m)
  case 0
  then have l: "l = k + 1" by simp
  then have "l \<le> n" "\<not> all_200 (resp l) l 0" using 0 by simp_all
  then have "probe_from resp n l m = l - 1" by (simp add: probe_from.simps [of resp n l m])
  then show ?case using l by simp
next
  case (Suc d)
  then have l: "l \<le> k" by linarith
  then have ok: "all_200 (resp l) l 0" using Suc.prems by simp
  have "probe_from resp n (l + 1) l = k"
  proof (rule Suc.hyps(1))
    show "d = nat (k + 1 - (l + 1))" using Suc.hyps(2) by linarith
    show "k < n" by fact
    show "\<forall>i. l + 1 \<le> i \<and> i \<le> k \<longrightarrow> all_200 (resp i) i 0" using Suc.prems(2) by simp
    show "\<not> all_200 (resp (k + 1)) (k + 1) 0" by fact
    show "l + 1 \<le> k + 1" using l by simp
  qed
  with l ok Suc.prems(1) show ?case by (simp add: probe_from.simps [of resp n l m])
qed

text \<open>
  Claim C7. When the probe is run up to \<open>n\<close>, every request of the levels 1 to \<open>k\<close>
  returns 200 and some request of level \<open>k + 1 \<le> n\<close> does not, the probe returns \<open>k\<close>: it
  stops at the first failing level \<open>i = k + 1\<close> with \<open>i - 1\<close>, whatever later levels would
  answer. The scenario of the claim (level 3 with two answers 200 and one other answer
  gives 2) is the instance shown after the theorem.
\<close>

theorem probe_returns_last_good_level:
  assumes "0 \<le> k" "k < n"
    and "\<forall>i j. 1 \<le> i \<and> i \<le> k \<and> 0 \<le> j \<and> j < i \<longrightarrow> resp i j = 200"
    and "\<exists>j. 0 \<le> j \<and> j < k + 1 \<and> resp (k + 1) j \<noteq> 200"
  shows "find_max_threads resp n = k"
proof -
  have good: "\<forall>i. 1 \<le> i \<and> i \<le> k \<longrightarrow> all_200 (resp i) i 0"
    using assms(3) by (simp add: all_200_iff)
  have bad: "\<not> all_200 (resp (k + 1)) (k + 1) 0"
    using assms(4) by (auto simp: all_200_iff)
  show ?thesis unfolding find_max_threads_def
    using assms(2) good bad by (rule probe_from_stops) (use assms(1) in simp)
qed

theorem probe_returns_last_good_level_witness:
  "(0::int) \<le> 2 \<and> (2::int) < 4
   \<and> (\<exists>j::int. 0 \<le> j \<and> j < 2 + 1 \<and> (if (2::int) + 1 = 3 \<and> j = 1 then 503 else (200::int)) \<noteq> 200)
   \<and> find_max_threads (\<lambda>i j. if i = 3 \<and> j = 1 then 503 else 200) 4 = 2"
proof -
  have h1: "(0::int) \<le> 2" and h2: "(2::int) < 4" by simp_all
  have h3: "\<forall>i j::int. 1 \<le> i \<and> i \<le> 2 \<and> 0 \<le> j \<and> j < i \<longrightarrow> (if i = 3 \<and> j = 1 then 503 else (200::int)) = 200"
    by simp
  have h4: "\<exists>j::int. 0 \<le> j \<and> j < 2 + 1 \<and> (if (2::int) + 1 = 3 \<and> j = 1 then 503 else (200::int)) \<noteq> 200"
    by (rule exI [of _ 1]) simp
  show ?thesis
    using h1 h2 h3 h4 probe_returns_last_good_level [of 2 4 "\<lambda>i j. if i = 3 \<and> j = 1 then 503 else 200", OF h1 h2 h3 h4]
    by blast
qed

text \<open>The probe never returns more than the count it was asked to try, so the count
  used for planning is the smaller of the two; but it can return 0.\<close>

lemma probe_from_range:
  "probe_from resp n i m = m \<or> (i - 1 \<le> probe_from resp n i m \<and> probe_from resp n i m \<le> n)"
proof (induction resp n i m rule: probe_from.induct)
  case (1 resp n i m)
  show ?case
  proof (cases "i \<le> n")
    case False
    then show ?thesis by (simp add: probe_from.simps [of resp n i m])
  next
    case True
    show ?thesis
    proof (cases "all_200 (resp i) i 0")
      case False
      with True show ?thesis by (simp add: probe_from.simps [of resp n i m])
    next
      case ok: True
      have "probe_from resp n (i + 1) i = i
          \<or> (i + 1 - 1 \<le> probe_from resp n (i + 1) i \<and> probe_from resp n (i + 1) i \<le> n)"
        using "1.IH" [OF True ok] .
      then have "i - 1 \<le> probe_from resp n (i + 1) i \<and> probe_from resp n (i + 1) i \<le> n"
        using True by auto
      then show ?thesis using True ok by (simp add: probe_from.simps [of resp n i m])
    qed
  qed
qed

lemma find_max_threads_range:
  assumes "1 \<le> n"
  shows "0 \<le> find_max_threads resp n \<and> find_max_threads resp n \<le> n"
  using probe_from_range [of resp n 1 1] assms by (auto simp: find_max_threads_def)

text \<open>
  Claim C3 does not hold of the code. When the only request of level 1 does not return
  200 (here 404, with 4 threads asked for and a content length of 1000), the probe
  returns \<open>1 - 1 = 0\<close>, \<^verbatim>\<open>main\<close> stores 0 in \<^verbatim>\<open>settings.max_threads\<close> without a fallback, and
  \<^verbatim>\<open>setup_download\<close> divides the content length by it. (That the count is at most the
  user's is \<open>find_max_threads_range\<close>.)
\<close>

theorem failed_probe_divides_by_zero:
  "find_max_threads (\<lambda>i j. 404) 4 = 0
   \<and> fst (main ((example_env 1000)\<lparr>probe_response := (\<lambda>i j. 404)\<rparr>) [] (example_world 4)) = Division_by_zero
   \<and> max_threads (settings (snd (main ((example_env 1000)\<lparr>probe_response := (\<lambda>i j. 404)\<rparr>) [] (example_world 4)))) = 0"
  by (simp add: find_max_threads_def probe_from.simps all_200.simps main_def setup_download_def
        update_max_threads_def example_env_def example_world_def printf_def Let_def)

subsection \<open>The segment worker\<close>

text \<open>One iteration of the retry loop, and the loop in closed form: up to a first
  success, and when every attempt fails.\<close>

lemma attempts_bound: "attempts (worker_loop tr a i s) \<le> attempts s + nat (5 - i)"
proof (induction tr a i s rule: worker_loop.induct)
  case (1 tr a i s)
  show ?case
  proof (cases "i < 5")
    case False
    then show ?thesis by (simp add: worker_loop.simps [of tr a i s])
  next
    case True
    show ?thesis
    proof (cases "code (tr i) = CURLE_OK")
      case ok: True
      with True show ?thesis
        by (simp add: worker_loop.simps [of tr a i s] curl_easy_perform_def)
    next
      case bad: False
      define s3 where "s3 = (curl_easy_perform (tr i) s)
          \<lparr>logged := logged (curl_easy_perform (tr i) s) @
             [if i = 4 then Error_exiting (index a) (errbuf (tr i)) else Error_retrying (index a) (errbuf (tr i))],
           seeks := seeks (curl_easy_perform (tr i) s) @ [start a],
           position := fseek (position (curl_easy_perform (tr i) s)) (start a)\<rparr>"
      have step: "worker_loop tr a i s = worker_loop tr a (i + 1) s3"
        using True bad by (simp add: worker_loop.simps [of tr a i s] s3_def Let_def)
      have "attempts (worker_loop tr a (i + 1) s3) \<le> attempts s3 + nat (5 - (i + 1))"
        using "1.IH" [OF True refl refl bad refl refl] by (simp add: s3_def)
      moreover have "attempts s3 = attempts s + 1" by (simp add: s3_def curl_easy_perform_def)
      ultimately show ?thesis using True step by simp
    qed
  qed
qed

lemma loop_step_failed:
  assumes "i < 5" "code (tr i) \<noteq> CURLE_OK"
  shows "worker_loop tr a i s =
     worker_loop tr a (i + 1)
       (s\<lparr>attempts := attempts s + 1,
          logged := logged s @ [if i = 4 then Error_exiting (index a) (errbuf (tr i))
                               else Error_retrying (index a) (errbuf (tr i))],
          seeks := seeks s @ [start a],
          position := fseek (position s + of_nat (written (tr i))) (start a)\<rparr>)"
  using assms by (simp add: worker_loop.simps [of tr a i s] Let_def curl_easy_perform_def)

lemma loop_step_ok:
  assumes "i < 5" "code (tr i) = CURLE_OK"
  shows "worker_loop tr a i s = s\<lparr>attempts := attempts s + 1, position := position s + of_nat (written (tr i))\<rparr>"
  using assms by (simp add: worker_loop.simps [of tr a i s] Let_def curl_easy_perform_def)

lemma loop_success:
  assumes "\<not> start a <s 0" "code (tr m) = CURLE_OK" "m < 5"
    and "\<forall>j. i \<le> j \<and> j < m \<longrightarrow> code (tr j) \<noteq> CURLE_OK" "i \<le> m"
  shows "attempts (worker_loop tr a i s) = attempts s + nat (m - i) + 1
       \<and> logged (worker_loop tr a i s) = logged s @ map (\<lambda>j. Error_retrying (index a) (errbuf (tr j))) [i..m - 1]
       \<and> seeks (worker_loop tr a i s) = seeks s @ replicate (nat (m - i)) (start a)
       \<and> position (worker_loop tr a i s) = (if i = m then position s else start a) + of_nat (written (tr m))"
  using assms(4,5)
proof (induction "nat (m - i)" arbitrary: i s)
  case 0
  then have "i = m" by simp
  then show ?case using assms(2,3) by (simp add: loop_step_ok)
next
  case (Suc d)
  then have lt: "i < m" by linarith
  then have i5: "i < 5" and i4: "i \<noteq> 4" using assms(3) by simp_all
  have bad: "code (tr i) \<noteq> CURLE_OK" using Suc.prems lt by simp
  let ?s = "s\<lparr>attempts := attempts s + 1,
        logged := logged s @ [Error_retrying (index a) (errbuf (tr i))],
        seeks := seeks s @ [start a],
        position := fseek (position s + of_nat (written (tr i))) (start a)\<rparr>"
  have step: "worker_loop tr a i s = worker_loop tr a (i + 1) ?s"
    using loop_step_failed [of i tr a s] i5 bad i4 by simp
  have d: "d = nat (m - (i + 1))" using Suc.hyps(2) by linarith
  have rest: "\<forall>j. i + 1 \<le> j \<and> j < m \<longrightarrow> code (tr j) \<noteq> CURLE_OK" using Suc.prems by simp
  have le: "i + 1 \<le> m" using lt by simp
  note ih = Suc.hyps(1) [OF d rest le, of ?s]
  have up: "[i..m - 1] = i # [i + 1..m - 1]" using lt by (simp add: upto_rec1)
  have n: "nat (m - i) = Suc (nat (m - (i + 1)))" using lt by linarith
  have pos: "position ?s = start a" using assms(1) by (simp add: fseek_def)
  show ?case unfolding step using ih lt pos by (simp add: up n)
qed

lemma loop_exhausted:
  assumes "\<not> start a <s 0"
    and "\<forall>j. i \<le> j \<and> j < 5 \<longrightarrow> code (tr j) \<noteq> CURLE_OK" "i \<le> 4"
  shows "attempts (worker_loop tr a i s) = attempts s + nat (5 - i)
       \<and> logged (worker_loop tr a i s) =
           logged s @ map (\<lambda>j. Error_retrying (index a) (errbuf (tr j))) [i..3]
             @ [Error_exiting (index a) (errbuf (tr 4))]
       \<and> seeks (worker_loop tr a i s) = seeks s @ replicate (nat (5 - i)) (start a)
       \<and> position (worker_loop tr a i s) = start a"
  using assms(2,3)
proof (induction "nat (4 - i)" arbitrary: i s)
  case 0
  then have i: "i = 4" by simp
  have bad: "code (tr 4) \<noteq> CURLE_OK" using 0 i by simp
  have "worker_loop tr a 5 t = t" for t by (simp add: worker_loop.simps [of tr a 5 t])
  then show ?case using loop_step_failed [of 4 tr a s] bad assms(1) by (simp add: i fseek_def)
next
  case (Suc d)
  then have lt: "i < 4" by linarith
  then have i5: "i < 5" and i4: "i \<noteq> 4" by simp_all
  have bad: "code (tr i) \<noteq> CURLE_OK" using Suc.prems lt by simp
  let ?s = "s\<lparr>attempts := attempts s + 1,
        logged := logged s @ [Error_retrying (index a) (errbuf (tr i))],
        seeks := seeks s @ [start a],
        position := fseek (position s + of_nat (written (tr i))) (start a)\<rparr>"
  have step: "worker_loop tr a i s = worker_loop tr a (i + 1) ?s"
    using loop_step_failed [of i tr a s] i5 bad i4 by simp
  have d: "d = nat (4 - (i + 1))" using Suc.hyps(2) by linarith
  have rest: "\<forall>j. i + 1 \<le> j \<and> j < 5 \<longrightarrow> code (tr j) \<noteq> CURLE_OK" using Suc.prems by simp
  have le: "i + 1 \<le> 4" using lt by simp
  note ih = Suc.hyps(1) [OF d rest le, of ?s]
  have up: "[i..3] = i # [i + 1..3]" using lt by (simp add: upto_rec1)
  have n: "nat (5 - i) = Suc (nat (5 - (i + 1)))" using lt by linarith
  show ?case unfolding step using ih by (simp add: up n replicate_append_same)
qed

lemma planned_start_not_negative:
  assumes "0 < res" "res < 2 ^ 63" "0 < n" "0 \<le> i" "i < n"
  shows "\<not> start (thread_args res n i) <s 0"
proof -
  have "0 \<le> res div n" using assms by (simp add: pos_imp_zdiv_nonneg_iff)
  then have lo: "0 \<le> i * (res div n)" using assms by simp
  have "i * (res div n) \<le> res" using assms by (simp add: chunk_mult_le)
  then have hi: "i * (res div n) < 2 ^ 63" using assms by simp
  have "signed_take_bit 63 (i * (res div n)) = i * (res div n)"
    using lo hi by (intro signed_take_bit_int_eq_self) auto
  then have "sint (word_of_int (i * (res div n)) :: 64 word) = i * (res div n)"
    by (simp only: sint_sbintrunc') simp
  then have "0 \<le> sint (start (thread_args res n i))"
    using lo assms by (simp only: args_start chunk_size_div)
  then show ?thesis by (simp add: word_sless_alt)
qed

text \<open>
  Claim C6. A worker whose segment start is a valid \<^verbatim>\<open>fseek\<close> offset (not negative as a
  \<^verbatim>\<open>long\<close>; every planned start is, by \<open>planned_start_not_negative\<close>) calls
  \<^verbatim>\<open>curl_easy_perform\<close> at most 5 times. If the first success is attempt \<open>m + 1\<close> (\<open>m < 5\<close>
  failures before it), it makes exactly \<open>m + 1\<close> attempts, logs exactly \<open>m\<close> retrying lines and
  no other line, has called \<^verbatim>\<open>fseek\<close> to the segment's start after each failure, and the
  successful attempt writes from the segment's start. If all 5 attempts fail, it logs 4
  retrying lines followed by one exiting line. In particular 4 failures followed by a
  success give 5 attempts, 4 retrying lines and no exiting line.
\<close>

theorem retry_policy:
  assumes "\<not> start a <s 0"
  shows "attempts (download_worker tr a pos) \<le> 5
     \<and> (\<forall>m. 0 \<le> m \<and> m < 5 \<and> (\<forall>j. 0 \<le> j \<and> j < m \<longrightarrow> code (tr j) \<noteq> CURLE_OK) \<and> code (tr m) = CURLE_OK \<longrightarrow>
            attempts (download_worker tr a pos) = nat m + 1
          \<and> logged (download_worker tr a pos) = map (\<lambda>j. Error_retrying (index a) (errbuf (tr j))) [0..m - 1]
          \<and> seeks (download_worker tr a pos) = replicate (nat m) (start a)
          \<and> position (download_worker tr a pos) = (if m = 0 then pos else start a) + of_nat (written (tr m)))
     \<and> ((\<forall>j. 0 \<le> j \<and> j < 5 \<longrightarrow> code (tr j) \<noteq> CURLE_OK) \<longrightarrow>
            attempts (download_worker tr a pos) = 5
          \<and> logged (download_worker tr a pos) =
              map (\<lambda>j. Error_retrying (index a) (errbuf (tr j))) [0..3] @ [Error_exiting (index a) (errbuf (tr 4))]
          \<and> seeks (download_worker tr a pos) = replicate 5 (start a)
          \<and> position (download_worker tr a pos) = start a)
     \<and> ((\<forall>j. 0 \<le> j \<and> j < 4 \<longrightarrow> code (tr j) \<noteq> CURLE_OK) \<and> code (tr 4) = CURLE_OK \<longrightarrow>
            attempts (download_worker tr a pos) = 5
          \<and> length (filter is_retrying (logged (download_worker tr a pos))) = 4
          \<and> filter is_exiting (logged (download_worker tr a pos)) = [])"
proof -
  let ?s0 = "\<lparr>attempts = 0, logged = [], seeks = [], position = pos\<rparr>"
  have bound: "attempts (download_worker tr a pos) \<le> 5"
    using attempts_bound [of tr a 0 ?s0] by (simp add: download_worker_def)
  have succ: "attempts (download_worker tr a pos) = nat m + 1
          \<and> logged (download_worker tr a pos) = map (\<lambda>j. Error_retrying (index a) (errbuf (tr j))) [0..m - 1]
          \<and> seeks (download_worker tr a pos) = replicate (nat m) (start a)
          \<and> position (download_worker tr a pos) = (if m = 0 then pos else start a) + of_nat (written (tr m))"
    if "0 \<le> m \<and> m < 5 \<and> (\<forall>j. 0 \<le> j \<and> j < m \<longrightarrow> code (tr j) \<noteq> CURLE_OK) \<and> code (tr m) = CURLE_OK" for m
  proof -
    from that have ok: "code (tr m) = CURLE_OK" and m5: "m < 5"
      and bad: "\<forall>j. 0 \<le> j \<and> j < m \<longrightarrow> code (tr j) \<noteq> CURLE_OK" and m0: "0 \<le> m" by blast+
    show ?thesis
      using loop_success [OF assms ok m5 bad m0, of ?s0]
      by (simp add: download_worker_def eq_commute [of 0 m])
  qed
  have exh: "attempts (download_worker tr a pos) = 5
          \<and> logged (download_worker tr a pos) =
              map (\<lambda>j. Error_retrying (index a) (errbuf (tr j))) [0..3] @ [Error_exiting (index a) (errbuf (tr 4))]
          \<and> seeks (download_worker tr a pos) = replicate 5 (start a)
          \<and> position (download_worker tr a pos) = start a"
    if "\<forall>j. 0 \<le> j \<and> j < 5 \<longrightarrow> code (tr j) \<noteq> CURLE_OK"
    using loop_exhausted [OF assms that, of ?s0] by (simp add: download_worker_def)
  have scen: "attempts (download_worker tr a pos) = 5
          \<and> length (filter is_retrying (logged (download_worker tr a pos))) = 4
          \<and> filter is_exiting (logged (download_worker tr a pos)) = []"
    if "(\<forall>j. 0 \<le> j \<and> j < 4 \<longrightarrow> code (tr j) \<noteq> CURLE_OK) \<and> code (tr 4) = CURLE_OK"
  proof -
    have "0 \<le> (4::int) \<and> (4::int) < 5 \<and> (\<forall>j. 0 \<le> j \<and> j < 4 \<longrightarrow> code (tr j) \<noteq> CURLE_OK) \<and> code (tr 4) = CURLE_OK"
      using that by simp
    from succ [OF this] show ?thesis by (simp add: filter_map comp_def)
  qed
  from bound succ exh scen show ?thesis by blast
qed

theorem retry_policy_witness:
  "\<not> start (thread_args 1000 4 1) <s 0
   \<and> code (if (3::int) < 4 then \<lparr>code = CURLE_failed 28, written = 10, errbuf = ''Timeout was reached''\<rparr>
            else \<lparr>code = CURLE_OK, written = 250, errbuf = []\<rparr>) \<noteq> CURLE_OK
   \<and> code (if (4::int) < 4 then \<lparr>code = CURLE_failed 28, written = 10, errbuf = ''Timeout was reached''\<rparr>
            else \<lparr>code = CURLE_OK, written = 250, errbuf = []\<rparr>) = CURLE_OK
   \<and> attempts (download_worker
        (\<lambda>j. if j < 4 then \<lparr>code = CURLE_failed 28, written = 10, errbuf = ''Timeout was reached''\<rparr>
              else \<lparr>code = CURLE_OK, written = 250, errbuf = []\<rparr>) (thread_args 1000 4 1) 250) = 5
   \<and> length (filter is_retrying (logged (download_worker
        (\<lambda>j. if j < 4 then \<lparr>code = CURLE_failed 28, written = 10, errbuf = ''Timeout was reached''\<rparr>
              else \<lparr>code = CURLE_OK, written = 250, errbuf = []\<rparr>) (thread_args 1000 4 1) 250))) = 4
   \<and> filter is_exiting (logged (download_worker
        (\<lambda>j. if j < 4 then \<lparr>code = CURLE_failed 28, written = 10, errbuf = ''Timeout was reached''\<rparr>
              else \<lparr>code = CURLE_OK, written = 250, errbuf = []\<rparr>) (thread_args 1000 4 1) 250)) = []
   \<and> position (download_worker
        (\<lambda>j. if j < 4 then \<lparr>code = CURLE_failed 28, written = 10, errbuf = ''Timeout was reached''\<rparr>
              else \<lparr>code = CURLE_OK, written = 250, errbuf = []\<rparr>) (thread_args 1000 4 1) 250) = 500"
proof -
  let ?tr = "\<lambda>j::int. if j < 4 then \<lparr>code = CURLE_failed 28, written = 10, errbuf = ''Timeout was reached''\<rparr>
              else \<lparr>code = CURLE_OK, written = 250, errbuf = []\<rparr>"
  have st: "start (thread_args 1000 4 1) = 250"
    by (simp add: thread_args_def chunk_size_def signed_divide_int_def)
  have h: "\<not> start (thread_args 1000 4 1) <s 0" by (simp add: st word_sless_alt)
  have bad: "\<forall>j::int. 0 \<le> j \<and> j < 4 \<longrightarrow> code (?tr j) \<noteq> CURLE_OK" by simp
  have ok: "code (?tr 4) = CURLE_OK" by simp
  note t = retry_policy [OF h, of ?tr 250]
  from t bad ok have a: "attempts (download_worker ?tr (thread_args 1000 4 1) 250) = 5
          \<and> length (filter is_retrying (logged (download_worker ?tr (thread_args 1000 4 1) 250))) = 4
          \<and> filter is_exiting (logged (download_worker ?tr (thread_args 1000 4 1) 250)) = []"
    by blast
  have "0 \<le> (4::int) \<and> (4::int) < 5 \<and> (\<forall>j. 0 \<le> j \<and> j < 4 \<longrightarrow> code (?tr j) \<noteq> CURLE_OK) \<and> code (?tr 4) = CURLE_OK"
    using bad ok by simp
  with t have "position (download_worker ?tr (thread_args 1000 4 1) 250) =
      (if (4::int) = 0 then 250 else start (thread_args 1000 4 1)) + of_nat (written (?tr 4))"
    by blast
  then have p: "position (download_worker ?tr (thread_args 1000 4 1) 250) = 500" by (simp add: st)
  show ?thesis using h bad ok a p by simp
qed

subsection \<open>Download setup\<close>

text \<open>The thread loop when nothing fails, and what every run of it keeps: its outcome is
  a return or \<^verbatim>\<open>EXIT_FAILURE\<close>, a file of zero bytes stays one, output is only added.\<close>

lemma create_threads_step:
  assumes "i < n" "\<forall>p. \<not> fails e p"
  shows "create_threads e res n i w =
         create_threads e res n (i + 1)
           (w\<lparr>dest_file := Some [],
              thread_infos := thread_infos w @ [new_thread e res n i],
              log_buffer := log_buffer w @ [Info_started i]\<rparr>)"
  using assms by (simp add: create_threads.simps [of e res n i w] Let_def)

lemma args_new_thread: "args (new_thread e res n i) = thread_args res n i"
  by (simp add: new_thread_def Let_def)

lemma create_threads_ok:
  assumes "\<forall>p. \<not> fails e p"
  shows "fst (create_threads e res n i w) = Returned
       \<and> map args (thread_infos (snd (create_threads e res n i w))) = map args (thread_infos w) @ plan_from res n i"
proof (induction "nat (n - i)" arbitrary: i w)
  case 0
  then have "\<not> i < n" by simp
  then show ?case
    by (simp add: create_threads.simps [of e res n i w] plan_from.simps [of res n i])
next
  case (Suc d)
  then have lt: "i < n" by linarith
  have d: "d = nat (n - (i + 1))" using Suc.hyps(2) by linarith
  show ?case
    unfolding create_threads_step [OF lt assms]
    using Suc.hyps(1) [OF d] lt
    by (simp add: plan_from.simps [of res n i] args_new_thread)
qed

lemma create_threads_outcome:
  "fst (create_threads e res n i w) = Returned \<or> fst (create_threads e res n i w) = Exit EXIT_FAILURE"
proof (induction "nat (n - i)" arbitrary: i w)
  case 0
  then have "\<not> i < n" by simp
  then show ?case by (simp add: create_threads.simps [of e res n i w])
next
  case (Suc d)
  then have lt: "i < n" by linarith
  have d: "d = nat (n - (i + 1))" using Suc.hyps(2) by linarith
  show ?case
    using Suc.hyps(1) [OF d] lt
    by (simp add: create_threads.simps [of e res n i w] Let_def)
qed

lemma create_threads_file:
  assumes "\<exists>m. dest_file w = Some (replicate m (CHR 0x00))"
  shows "\<exists>m. dest_file (snd (create_threads e res n i w)) = Some (replicate m (CHR 0x00))"
  using assms
proof (induction "nat (n - i)" arbitrary: i w)
  case 0
  then have "\<not> i < n" by simp
  then show ?case using 0 by (simp add: create_threads.simps [of e res n i w])
next
  case (Suc d)
  then have lt: "i < n" by linarith
  have d: "d = nat (n - (i + 1))" using Suc.hyps(2) by linarith
  have e0: "\<exists>m. Some [] = Some (replicate m (CHR 0x00))" by (rule exI [of _ 0]) simp
  show ?case
    using Suc.hyps(1) [OF d] lt Suc.prems e0
    by (simp add: create_threads.simps [of e res n i w] Let_def printf_def)
qed

lemma create_threads_stdout:
  "set (stdout w) \<subseteq> set (stdout (snd (create_threads e res n i w)))"
proof (induction "nat (n - i)" arbitrary: i w)
  case 0
  then have "\<not> i < n" by simp
  then show ?case by (simp add: create_threads.simps [of e res n i w])
next
  case (Suc d)
  then have lt: "i < n" by linarith
  have d: "d = nat (n - (i + 1))" using Suc.hyps(2) by linarith
  let ?w2 = "w\<lparr>dest_file := Some [],
              thread_infos := thread_infos w @ [new_thread e res n i],
              log_buffer := log_buffer w @ [Info_started i]\<rparr>"
  have "set (stdout ?w2) \<subseteq> set (stdout (snd (create_threads e res n (i + 1) ?w2)))"
    by (rule Suc.hyps(1) [OF d])
  then have "set (stdout w) \<subseteq> set (stdout (snd (create_threads e res n (i + 1) ?w2)))" by simp
  then show ?case
    using lt by (auto simp: create_threads.simps [of e res n i w] Let_def printf_def)
qed

lemma create_file_outcome:
  "fst (create_file e w) = Returned \<or> fst (create_file e w) = Exit EXIT_FAILURE"
  by (simp add: create_file_def Let_def)

lemma create_file_stdout: "set (stdout w) \<subseteq> set (stdout (snd (create_file e w)))"
  by (auto simp: create_file_def Let_def printf_def)

lemma create_file_zeros:
  assumes "\<not> fails e Fopen_file"
  shows "\<exists>m. dest_file (snd (create_file e w)) = Some (replicate m (CHR 0x00))"
proof -
  have e0: "\<exists>m. [] = replicate m (CHR 0x00)" by simp
  show ?thesis using assms e0 by (auto simp: create_file_def Let_def printf_def fallocate_def)
qed

lemma and_then_fst_cases:
  "fst (and_then r f) = (if fst r = Returned then fst (f (snd r)) else fst r)"
  by (cases r; cases "fst r") auto

lemma and_then_snd_cases:
  "snd (and_then r f) = (if fst r = Returned then snd (f (snd r)) else snd r)"
  by (cases r; cases "fst r") auto

lemma EXIT_codes_differ: "EXIT_SUCCESS \<noteq> EXIT_FAILURE"
  by (simp add: EXIT_SUCCESS_def EXIT_FAILURE_def)

lemma creation_outcome:
  "fst (and_then (create_file e w) (create_threads e res n i)) = Returned
   \<or> fst (and_then (create_file e w) (create_threads e res n i)) = Exit EXIT_FAILURE"
  using create_file_outcome [of e w] create_threads_outcome [of e res n i "snd (create_file e w)"]
  by (auto simp: and_then_fst_cases)

lemma creation_stdout:
  "set (stdout w) \<subseteq> set (stdout (snd (and_then (create_file e w) (create_threads e res n i))))"
  using create_file_stdout [of w e] create_threads_stdout [of "snd (create_file e w)" e res n i]
  by (auto simp: and_then_snd_cases)

lemma creation_zeros:
  assumes "\<not> fails e Fopen_file"
  shows "\<exists>m. dest_file (snd (and_then (create_file e w) (create_threads e res n i))) = Some (replicate m (CHR 0x00))"
  using create_file_zeros [OF assms, of w] create_threads_file [of "snd (create_file e w)" e res n i]
  by (auto simp: and_then_snd_cases)

lemma setup_download_existing:
  assumes "dest_file w = Some old" "0 < content_length e" "max_threads (settings w) \<noteq> 0"
    and "\<not> fails e Malloc_thread_infos" "\<not> fails e Malloc_progress"
  shows "setup_download e w =
     (if answer e = CHR ''n''
      then (Exit EXIT_SUCCESS, printf (overwrite_question (filename (settings w))) (w\<lparr>paused := False\<rparr>))
      else and_then (create_file e (printf (overwrite_question (filename (settings w))) (w\<lparr>paused := False\<rparr>)))
             (create_threads e (content_length e) (max_threads (settings w)) 0))"
  using assms by (simp add: setup_download_def overwrite_check_def Let_def printf_def)

text \<open>
  Claim C10. When the destination file exists as download setup reaches the check (the
  content length is positive, the thread count is not zero and the first allocations
  succeed), setup prints the overwrite question. It exits with \<^verbatim>\<open>EXIT_SUCCESS\<close> if and only
  if the answer is the character \<^verbatim>\<open>n\<close>; in that case the file keeps its contents and no
  worker was created and nothing was logged. With any other answer (for instance \<^verbatim>\<open>N\<close>)
  setup goes on to \<^verbatim>\<open>fopen(settings.filename, "wb")\<close>, and when that call succeeds the old
  contents are gone: the file is left holding zero bytes only (none, or the preallocated
  ones).
\<close>

theorem overwrite_only_declined_by_n:
  assumes "dest_file w = Some old" "0 < content_length e" "max_threads (settings w) \<noteq> 0"
    and "\<not> fails e Malloc_thread_infos" "\<not> fails e Malloc_progress"
  shows "overwrite_question (filename (settings w)) \<in> set (stdout (snd (setup_download e w)))
       \<and> (fst (setup_download e w) = Exit EXIT_SUCCESS \<longleftrightarrow> answer e = CHR ''n'')
       \<and> (answer e = CHR ''n'' \<longrightarrow>
            dest_file (snd (setup_download e w)) = Some old
          \<and> thread_infos (snd (setup_download e w)) = thread_infos w
          \<and> log_buffer (snd (setup_download e w)) = log_buffer w)
       \<and> (answer e \<noteq> CHR ''n'' \<longrightarrow>
            setup_download e w =
              and_then (create_file e (printf (overwrite_question (filename (settings w))) (w\<lparr>paused := False\<rparr>)))
                (create_threads e (content_length e) (max_threads (settings w)) 0))
       \<and> (answer e \<noteq> CHR ''n'' \<and> \<not> fails e Fopen_file \<longrightarrow>
            (\<exists>m. dest_file (snd (setup_download e w)) = Some (replicate m (CHR 0x00))))"
proof -
  let ?q = "overwrite_question (filename (settings w))"
  let ?w1 = "printf ?q (w\<lparr>paused := False\<rparr>)"
  let ?rest = "and_then (create_file e ?w1) (create_threads e (content_length e) (max_threads (settings w)) 0)"
  note eq = setup_download_existing [OF assms]
  have q1: "?q \<in> set (stdout ?w1)" by (simp add: printf_def)
  have asked: "?q \<in> set (stdout (snd (setup_download e w)))"
  proof (cases "answer e = CHR ''n''")
    case True
    then show ?thesis using q1 by (simp add: eq)
  next
    case False
    then show ?thesis using q1 creation_stdout [of ?w1 e "content_length e" "max_threads (settings w)" 0] by (auto simp: eq)
  qed
  have iff: "fst (setup_download e w) = Exit EXIT_SUCCESS \<longleftrightarrow> answer e = CHR ''n''"
  proof (cases "answer e = CHR ''n''")
    case True
    then show ?thesis by (simp add: eq)
  next
    case False
    have "fst ?rest \<noteq> Exit EXIT_SUCCESS"
      using creation_outcome [of e ?w1 "content_length e" "max_threads (settings w)" 0] EXIT_codes_differ
      by auto
    then show ?thesis using False by (simp add: eq)
  qed
  have declined: "answer e = CHR ''n'' \<longrightarrow>
            dest_file (snd (setup_download e w)) = Some old
          \<and> thread_infos (snd (setup_download e w)) = thread_infos w
          \<and> log_buffer (snd (setup_download e w)) = log_buffer w"
    using assms(1) by (simp add: eq printf_def)
  have proceeds: "answer e \<noteq> CHR ''n'' \<longrightarrow> setup_download e w = ?rest"
    by (simp add: eq)
  have truncated: "answer e \<noteq> CHR ''n'' \<and> \<not> fails e Fopen_file \<longrightarrow>
            (\<exists>m. dest_file (snd (setup_download e w)) = Some (replicate m (CHR 0x00)))"
    using creation_zeros [of e ?w1 "content_length e" "max_threads (settings w)" 0] by (auto simp: eq)
  from asked iff declined proceeds truncated show ?thesis by blast
qed

theorem overwrite_only_declined_by_n_witness:
  "dest_file ((example_world 4)\<lparr>dest_file := Some ''old''\<rparr>) = Some ''old''
   \<and> 0 < content_length ((example_env 1000)\<lparr>answer := CHR ''n''\<rparr>)
   \<and> max_threads (settings ((example_world 4)\<lparr>dest_file := Some ''old''\<rparr>)) \<noteq> 0
   \<and> \<not> fails ((example_env 1000)\<lparr>answer := CHR ''n''\<rparr>) Malloc_thread_infos
   \<and> \<not> fails ((example_env 1000)\<lparr>answer := CHR ''n''\<rparr>) Malloc_progress
   \<and> answer ((example_env 1000)\<lparr>answer := CHR ''n''\<rparr>) = CHR ''n''
   \<and> fst (setup_download ((example_env 1000)\<lparr>answer := CHR ''n''\<rparr>)
            ((example_world 4)\<lparr>dest_file := Some ''old''\<rparr>)) = Exit EXIT_SUCCESS
   \<and> dest_file (snd (setup_download ((example_env 1000)\<lparr>answer := CHR ''n''\<rparr>)
            ((example_world 4)\<lparr>dest_file := Some ''old''\<rparr>))) = Some ''old''
   \<and> thread_infos (snd (setup_download ((example_env 1000)\<lparr>answer := CHR ''n''\<rparr>)
            ((example_world 4)\<lparr>dest_file := Some ''old''\<rparr>))) = []
   \<and> answer ((example_env 1000)\<lparr>answer := CHR ''N''\<rparr>) \<noteq> CHR ''n''
   \<and> \<not> fails ((example_env 1000)\<lparr>answer := CHR ''N''\<rparr>) Fopen_file
   \<and> fst (setup_download ((example_env 1000)\<lparr>answer := CHR ''N''\<rparr>)
            ((example_world 4)\<lparr>dest_file := Some ''old''\<rparr>)) \<noteq> Exit EXIT_SUCCESS
   \<and> (\<exists>m. dest_file (snd (setup_download ((example_env 1000)\<lparr>answer := CHR ''N''\<rparr>)
            ((example_world 4)\<lparr>dest_file := Some ''old''\<rparr>))) = Some (replicate m (CHR 0x00)))"
proof -
  let ?w = "(example_world 4)\<lparr>dest_file := Some ''old''\<rparr>"
  let ?en = "(example_env 1000)\<lparr>answer := CHR ''n''\<rparr>"
  let ?eN = "(example_env 1000)\<lparr>answer := CHR ''N''\<rparr>"
  have w1: "dest_file ?w = Some ''old''" and w2: "max_threads (settings ?w) \<noteq> 0"
    and w3: "thread_infos ?w = []"
    by (simp_all add: example_world_def)
  have n1: "0 < content_length ?en" and n2: "\<not> fails ?en Malloc_thread_infos"
    and n3: "\<not> fails ?en Malloc_progress" and n4: "answer ?en = CHR ''n''"
    by (simp_all add: example_env_def)
  have N1: "0 < content_length ?eN" and N2: "\<not> fails ?eN Malloc_thread_infos"
    and N3: "\<not> fails ?eN Malloc_progress" and N4: "answer ?eN \<noteq> CHR ''n''"
    and N5: "\<not> fails ?eN Fopen_file"
    by (simp_all add: example_env_def)
  note tn = overwrite_only_declined_by_n [OF w1 n1 w2 n2 n3]
  note tN = overwrite_only_declined_by_n [OF w1 N1 w2 N2 N3]
  from tn n4 have a: "fst (setup_download ?en ?w) = Exit EXIT_SUCCESS"
    and b: "dest_file (snd (setup_download ?en ?w)) = Some ''old''"
    and c: "thread_infos (snd (setup_download ?en ?w)) = thread_infos ?w" by blast+
  from tN N4 N5 have d: "fst (setup_download ?eN ?w) \<noteq> Exit EXIT_SUCCESS"
    and f: "\<exists>m. dest_file (snd (setup_download ?eN ?w)) = Some (replicate m (CHR 0x00))" by blast+
  from w1 w2 n1 n2 n3 n4 N4 N5 a b c [unfolded w3] d f show ?thesis by blast
qed

text \<open>
  Claim C9. When the metadata request yields a content length that is zero or negative,
  \<^verbatim>\<open>setup_download\<close> prints its error and exits with \<^verbatim>\<open>EXIT_FAILURE\<close> at once, so the whole
  run ends with that status and with no worker thread created, the destination file
  neither created nor touched, no segment planned, nothing logged and nothing counted.
\<close>

theorem invalid_content_length_aborts:
  assumes "content_length e \<le> 0"
  shows "setup_download e w = (Exit EXIT_FAILURE, printf (''ERROR | Could not fetch content length'' @ NL) w)
       \<and> fst (main e sched w) = Exit EXIT_FAILURE
       \<and> thread_infos (snd (main e sched w)) = thread_infos w
       \<and> dest_file (snd (main e sched w)) = dest_file w
       \<and> log_buffer (snd (main e sched w)) = log_buffer w
       \<and> completed_counter (snd (main e sched w)) = completed_counter w"
  using assms by (simp add: main_def setup_download_def update_max_threads_def Let_def printf_def)

theorem invalid_content_length_aborts_witness:
  "content_length (example_env (- 1)) \<le> 0
   \<and> fst (main (example_env (- 1)) [] ((example_world 4)\<lparr>dest_file := Some ''old''\<rparr>)) = Exit EXIT_FAILURE
   \<and> thread_infos (snd (main (example_env (- 1)) [] ((example_world 4)\<lparr>dest_file := Some ''old''\<rparr>))) = []
   \<and> dest_file (snd (main (example_env (- 1)) [] ((example_world 4)\<lparr>dest_file := Some ''old''\<rparr>))) = Some ''old''"
proof -
  have h: "content_length (example_env (- 1)) \<le> 0" by (simp add: example_env_def)
  show ?thesis
    using h invalid_content_length_aborts [OF h, where sched = "[]" and w = "(example_world 4)\<lparr>dest_file := Some ''old''\<rparr>"]
    by (simp add: example_world_def)
qed

lemma and_then_Returned: "fst r = Returned \<Longrightarrow> and_then r f = f (snd r)"
  by (cases r) simp

lemma overwrite_check_proceeds:
  assumes "dest_file w = None \<or> answer e \<noteq> CHR ''n''"
  shows "fst (overwrite_check e w) = Returned
       \<and> thread_infos (snd (overwrite_check e w)) = thread_infos w"
  using assms by (cases "dest_file w") (simp_all add: overwrite_check_def Let_def printf_def)

lemma create_file_proceeds:
  assumes "\<forall>p. \<not> fails e p"
  shows "fst (create_file e w) = Returned \<and> thread_infos (snd (create_file e w)) = thread_infos w"
  using assms by (simp add: create_file_def Let_def)

lemma setup_download_ok:
  assumes "0 < content_length e" "max_threads (settings w) \<noteq> 0" "\<forall>p. \<not> fails e p"
    and "dest_file w = None \<or> answer e \<noteq> CHR ''n''"
  shows "fst (setup_download e w) = Returned
       \<and> map args (thread_infos (snd (setup_download e w))) =
           map args (thread_infos w) @ plan (content_length e) (max_threads (settings w))"
proof -
  let ?res = "content_length e" and ?n = "max_threads (settings w)"
  let ?w1 = "snd (overwrite_check e (w\<lparr>paused := False\<rparr>))"
  let ?w2 = "snd (create_file e ?w1)"
  have o: "fst (overwrite_check e (w\<lparr>paused := False\<rparr>)) = Returned"
    and t1: "thread_infos ?w1 = thread_infos w"
    using overwrite_check_proceeds [of "w\<lparr>paused := False\<rparr>" e] assms(4) by simp_all
  have c: "fst (create_file e ?w1) = Returned" and t2: "thread_infos ?w2 = thread_infos ?w1"
    using create_file_proceeds [OF assms(3), of ?w1] by simp_all
  have "setup_download e w = create_threads e ?res ?n 0 ?w2"
    using assms(1,2,3) by (simp add: setup_download_def Let_def and_then_Returned [OF o] and_then_Returned [OF c])
  then show ?thesis
    using create_threads_ok [OF assms(3), of ?res ?n 0 ?w2] t1 t2 by (simp add: plan_def)
qed

text \<open>The positions to which the loop seeks the workers' files, when nothing fails.\<close>

lemma create_threads_buffers:
  assumes "\<forall>p. \<not> fails e p"
  shows "map buffer (thread_infos (snd (create_threads e res n i w))) =
           map buffer (thread_infos w) @ map (\<lambda>a. fseek 0 (start a)) (plan_from res n i)"
proof (induction "nat (n - i)" arbitrary: i w)
  case 0
  then have "\<not> i < n" by simp
  then show ?case
    by (simp add: create_threads.simps [of e res n i w] plan_from.simps [of res n i])
next
  case (Suc d)
  then have lt: "i < n" by linarith
  have d: "d = nat (n - (i + 1))" using Suc.hyps(2) by linarith
  have b: "buffer (new_thread e res n i) = fseek 0 (start (thread_args res n i))"
    by (simp only: new_thread_def Let_def args_start DLThreadInfo.simps)
  show ?case
    unfolding create_threads_step [OF lt assms]
    using Suc.hyps(1) [OF d] lt
    by (simp add: plan_from.simps [of res n i] b)
qed

lemma setup_download_buffers:
  assumes "0 < content_length e" "max_threads (settings w) \<noteq> 0" "\<forall>p. \<not> fails e p"
    and "dest_file w = None \<or> answer e \<noteq> CHR ''n''"
  shows "map buffer (thread_infos (snd (setup_download e w))) =
           map buffer (thread_infos w)
             @ map (\<lambda>a. fseek 0 (start a)) (plan (content_length e) (max_threads (settings w)))"
proof -
  let ?res = "content_length e" and ?n = "max_threads (settings w)"
  let ?w1 = "snd (overwrite_check e (w\<lparr>paused := False\<rparr>))"
  let ?w2 = "snd (create_file e ?w1)"
  have o: "fst (overwrite_check e (w\<lparr>paused := False\<rparr>)) = Returned"
    and t1: "thread_infos ?w1 = thread_infos w"
    using overwrite_check_proceeds [of "w\<lparr>paused := False\<rparr>" e] assms(4) by simp_all
  have c: "fst (create_file e ?w1) = Returned" and t2: "thread_infos ?w2 = thread_infos ?w1"
    using create_file_proceeds [OF assms(3), of ?w1] by simp_all
  have "setup_download e w = create_threads e ?res ?n 0 ?w2"
    using assms(1,2,3) by (simp add: setup_download_def Let_def and_then_Returned [OF o] and_then_Returned [OF c])
  then show ?thesis
    using create_threads_buffers [OF assms(3), of ?res ?n 0 ?w2] t1 t2 by (simp add: plan_def)
qed

lemma plan_3_4: "plan 3 4 = [\<lparr>index = 0, start = 0, end' = 18446744073709551615\<rparr>,
     \<lparr>index = 1, start = 0, end' = 18446744073709551615\<rparr>,
     \<lparr>index = 2, start = 0, end' = 18446744073709551615\<rparr>,
     \<lparr>index = 3, start = 0, end' = 3\<rparr>]"
  by (simp add: plan_upto upto_rec1 thread_args_def chunk_size_def signed_divide_int_def)

text \<open>
  Claim C5 does not hold of the code: \<^verbatim>\<open>setup_download\<close> never compares the thread count
  with the content length. With a content length of 3 and 4 threads the chunk size is 0
  and setup, instead of failing with a sizing error, returns with four workers started.
  Their ranges are not a partition: the three non-final ends are \<open>(i + 1) * 0 - 1 = - 1\<close>,
  stored in the \<^verbatim>\<open>unsigned long long\<close> field as \<open>2 ^ 64 - 1\<close>, every worker's \<^verbatim>\<open>FILE *\<close> is
  sought to offset 0, every segment contains offset 0, and the segments of threads 0 and
  1 overlap.
\<close>

theorem sizing_check_missing:
  "(3::int) < 4
   \<and> chunk_size 3 4 = 0
   \<and> fst (setup_download (example_env 3) (example_world 4)) = Returned
   \<and> map args (thread_infos (snd (setup_download (example_env 3) (example_world 4)))) =
       [\<lparr>index = 0, start = 0, end' = 18446744073709551615\<rparr>,
        \<lparr>index = 1, start = 0, end' = 18446744073709551615\<rparr>,
        \<lparr>index = 2, start = 0, end' = 18446744073709551615\<rparr>,
        \<lparr>index = 3, start = 0, end' = 3\<rparr>]
   \<and> map buffer (thread_infos (snd (setup_download (example_env 3) (example_world 4)))) = [0, 0, 0, 0]
   \<and> map (sint \<circ> end') (plan 3 4) = [- 1, - 1, - 1, 3]
   \<and> in_segment (plan 3 4 ! 0) 0 \<and> in_segment (plan 3 4 ! 1) 0
   \<and> in_segment (plan 3 4 ! 2) 0 \<and> in_segment (plan 3 4 ! 3) 0
   \<and> \<not> (end' (plan 3 4 ! 0) < start (plan 3 4 ! 1) \<or> end' (plan 3 4 ! 1) < start (plan 3 4 ! 0))"
proof -
  have h: "0 < content_length (example_env 3)" "max_threads (settings (example_world 4)) \<noteq> 0"
    "\<forall>p. \<not> fails (example_env 3) p"
    "dest_file (example_world 4) = None \<or> answer (example_env 3) \<noteq> CHR ''n''"
    by (simp_all add: example_env_def example_world_def)
  have c: "chunk_size 3 4 = 0" by (simp add: chunk_size_def signed_divide_int_def)
  have s: "fst (setup_download (example_env 3) (example_world 4)) = Returned
      \<and> map args (thread_infos (snd (setup_download (example_env 3) (example_world 4)))) =
          map args (thread_infos (example_world 4))
            @ plan (content_length (example_env 3)) (max_threads (settings (example_world 4)))"
    using h by (rule setup_download_ok)
  have b: "map buffer (thread_infos (snd (setup_download (example_env 3) (example_world 4)))) =
          map buffer (thread_infos (example_world 4))
            @ map (\<lambda>a. fseek 0 (start a)) (plan (content_length (example_env 3)) (max_threads (settings (example_world 4))))"
    using h by (rule setup_download_buffers)
  have p: "map (sint \<circ> end') (plan 3 4) = [- 1, - 1, - 1, 3]" by (simp add: plan_3_4)
  from c s b p show ?thesis
    by (simp add: example_env_def example_world_def plan_3_4 fseek_def in_segment_def word_sless_alt)
qed

subsection \<open>The controller\<close>

text \<open>The run with the lost first segment, evaluated.\<close>

lemma lost_pending:
  "logged (download_worker (\<lambda>i. \<lparr>code = CURLE_failed 28, written = 0, errbuf = ''Timeout was reached''\<rparr>) a pos) =
     [Error_retrying (index a) ''Timeout was reached'', Error_retrying (index a) ''Timeout was reached'',
      Error_retrying (index a) ''Timeout was reached'', Error_retrying (index a) ''Timeout was reached'',
      Error_exiting (index a) ''Timeout was reached'']"
  by (simp add: download_worker_def worker_loop.simps Let_def curl_easy_perform_def)

lemma ok_pending:
  "logged (download_worker (\<lambda>i. \<lparr>code = CURLE_OK, written = 0, errbuf = []\<rparr>) a pos) = []"
  by (simp add: download_worker_def worker_loop.simps Let_def curl_easy_perform_def)

lemma lost_segment_probe:
  "update_max_threads (lost_segment_env 1000) (example_world 2) =
     printf (BOLD @ NL @ ''Max threads updated: '' @ string_of_int 2 @ NL @ RESET
                   @ ''Starting download in 2 seconds...'' @ NL) (example_world 2)"
  by (simp add: update_max_threads_def lost_segment_env_def example_env_def example_world_def
      find_max_threads_def probe_from.simps all_200.simps printf_def)

lemma lost_segment_setup:
  "fst (setup_download (lost_segment_env 1000) (update_max_threads (lost_segment_env 1000) (example_world 2))) = Returned"
  "max_threads (settings lost_segment_world) = 2"
  "completed_counter lost_segment_world = 0"
  "log_buffer lost_segment_world = [Info_started 0, Info_started 1]"
  "thread_infos lost_segment_world =
       [\<lparr>thread = \<lparr>pending = [Error_retrying 0 ''Timeout was reached'', Error_retrying 0 ''Timeout was reached'',
                                Error_retrying 0 ''Timeout was reached'', Error_retrying 0 ''Timeout was reached'',
                                Error_exiting 0 ''Timeout was reached''],
                     returned = False, cancelled = False\<rparr>,
          args = \<lparr>index = 0, start = 0, end' = 499\<rparr>,
          curl = \<lparr>timeout_ms = None, recv_paused = False\<rparr>, buffer = 0\<rparr>,
        \<lparr>thread = \<lparr>pending = [], returned = False, cancelled = False\<rparr>,
          args = \<lparr>index = 1, start = 500, end' = 1000\<rparr>,
          curl = \<lparr>timeout_ms = None, recv_paused = False\<rparr>, buffer = 500\<rparr>]"
  unfolding lost_segment_world_def lost_segment_probe
  by (simp_all add: setup_download_def lost_segment_env_def example_env_def example_world_def Let_def
      overwrite_check_def create_file_def create_threads.simps new_thread_def lost_pending ok_pending
      thread_args_def chunk_size_def signed_divide_int_def fseek_def fallocate_def word_sless_alt printf_def)

lemma lost_segment_failed_fields:
  "max_threads (settings lost_segment_failed) = 2"
  "completed_counter lost_segment_failed = 0"
  "log_buffer lost_segment_failed =
     [Info_started 0, Info_started 1,
      Error_retrying 0 ''Timeout was reached'', Error_retrying 0 ''Timeout was reached'',
      Error_retrying 0 ''Timeout was reached'', Error_retrying 0 ''Timeout was reached'',
      Error_exiting 0 ''Timeout was reached'']"
  "thread_infos lost_segment_failed =
       [\<lparr>thread = \<lparr>pending = [], returned = False, cancelled = False\<rparr>,
          args = \<lparr>index = 0, start = 0, end' = 499\<rparr>,
          curl = \<lparr>timeout_ms = None, recv_paused = False\<rparr>, buffer = 0\<rparr>,
        \<lparr>thread = \<lparr>pending = [], returned = False, cancelled = False\<rparr>,
          args = \<lparr>index = 1, start = 500, end' = 1000\<rparr>,
          curl = \<lparr>timeout_ms = None, recv_paused = False\<rparr>, buffer = 500\<rparr>]"
  unfolding lost_segment_failed_def
  by (simp_all add: run_thread_def Let_def lost_segment_setup)




















text \<open>
  Claim C8. Whenever setup has returned and the wait loop returns, in whatever state
  \<open>w4\<close>, \<^verbatim>\<open>main\<close> prints the three pieces of the \<^verbatim>\<open>Download Complete\<close> message and ends
  with status 0; it looks neither at the log nor at the workers in between. The instance
  after the theorem is a run in which thread 0 has used up its attempts and logged its
  exiting line, and the message is printed all the same.
\<close>

theorem download_complete_unconditional:
  assumes "fst (setup_download e (update_max_threads e w)) = Returned"
    and "wait_for_threads sched (snd (setup_download e (update_max_threads e w))) = Some w4"
  shows "main e sched w =
           (Exit 0, printf (CHECKMARK @ NL @ RESET)
                      (printf ''Download Complete '' (printf (NL @ NL @ GREEN @ BOLD) w4)))
       \<and> stdout (snd (main e sched w)) =
           stdout w4 @ [NL @ NL @ GREEN @ BOLD, ''Download Complete '', CHECKMARK @ NL @ RESET]
       \<and> log_buffer (snd (main e sched w)) = log_buffer w4
       \<and> thread_infos (snd (main e sched w)) = thread_infos w4"
  using assms by (simp add: main_def and_then_Returned printf_def)

theorem download_complete_unconditional_witness:
  "fst (setup_download (lost_segment_env 1000) (update_max_threads (lost_segment_env 1000) (example_world 2))) = Returned
   \<and> wait_for_threads [Run 0, Run 0, Run 0, Run 0, Run 0, Run 0, Run 1, Tick (CHR 0xFF)]
        (snd (setup_download (lost_segment_env 1000) (update_max_threads (lost_segment_env 1000) (example_world 2))))
       = Some (run_thread 1 (run_thread 0 lost_segment_failed))
   \<and> list_ex is_exiting (log_buffer (run_thread 1 (run_thread 0 lost_segment_failed)))
   \<and> fst (main (lost_segment_env 1000) [Run 0, Run 0, Run 0, Run 0, Run 0, Run 0, Run 1, Tick (CHR 0xFF)]
        (example_world 2)) = Exit 0
   \<and> ''Download Complete '' \<in> set (stdout (snd (main (lost_segment_env 1000)
        [Run 0, Run 0, Run 0, Run 0, Run 0, Run 0, Run 1, Tick (CHR 0xFF)] (example_world 2))))
   \<and> list_ex is_exiting (log_buffer (snd (main (lost_segment_env 1000)
        [Run 0, Run 0, Run 0, Run 0, Run 0, Run 0, Run 1, Tick (CHR 0xFF)] (example_world 2))))"
proof -
  let ?sched = "[Run 0, Run 0, Run 0, Run 0, Run 0, Run 0, Run 1, Tick (CHR 0xFF)]"
  let ?w4 = "run_thread 1 (run_thread 0 lost_segment_failed)"
  have h1: "fst (setup_download (lost_segment_env 1000) (update_max_threads (lost_segment_env 1000) (example_world 2))) = Returned"
    by (rule lost_segment_setup)
  have f: "completed_counter ?w4 = 2" "max_threads (settings ?w4) = 2"
    "log_buffer ?w4 = log_buffer lost_segment_failed"
    by (simp_all add: run_thread_def Let_def lost_segment_failed_fields)
  have "wait_for_threads ?sched lost_segment_world = wait_for_threads [Tick (CHR 0xFF)] ?w4"
    by (simp add: lost_segment_failed_def)
  also have "\<dots> = Some ?w4" using f by simp
  finally have h2: "wait_for_threads ?sched
        (snd (setup_download (lost_segment_env 1000) (update_max_threads (lost_segment_env 1000) (example_world 2))))
       = Some ?w4"
    by (simp only: lost_segment_world_def)
  have ex: "list_ex is_exiting (log_buffer ?w4)" by (simp only: f lost_segment_failed_fields) simp
  note t = download_complete_unconditional [OF h1 h2]
  from t have m1: "fst (main (lost_segment_env 1000) ?sched (example_world 2)) = Exit 0" by simp
  from t have "stdout (snd (main (lost_segment_env 1000) ?sched (example_world 2))) =
           stdout ?w4 @ [NL @ NL @ GREEN @ BOLD, ''Download Complete '', CHECKMARK @ NL @ RESET]" by blast
  then have m2: "''Download Complete '' \<in> set (stdout (snd (main (lost_segment_env 1000) ?sched (example_world 2))))"
    by simp
  from t have "log_buffer (snd (main (lost_segment_env 1000) ?sched (example_world 2))) = log_buffer ?w4" by blast
  with ex have m3: "list_ex is_exiting (log_buffer (snd (main (lost_segment_env 1000) ?sched (example_world 2))))"
    by simp
  from h1 h2 ex m1 m2 m3 show ?thesis by blast
qed

end
